theory Spec2Isabelle
  imports
    Main
    "HOL-Library.Char_ord"
    "HOL-Library.List_Lexorder"
    "HOL-Library.Product_Lexorder"
begin

section \<open>Values and errors\<close>

text \<open>
  The generator is Python 2. A text is a \<^typ>\<open>string\<close>, the list of its characters,
  a character being a code point up to U+00FF (the code points beyond are not modelled).
  Python 2 has two text types, and which one a text has is fixed by where it comes from:
  the text read from a content file is a unicode string (\<open>codecs.open\<close>, line 222), and
  the YAML loader returns a byte string (\<open>str\<close>) for a scalar of ASCII characters only
  and a unicode string for any other. The two types differ in what counts as whitespace,
  see \<open>is_space\<close> and \<open>is_uspace\<close>. An unbounded integer is an \<^typ>\<open>int\<close>.

  Every way a call can stop is a value of
  \<open>error\<close>: \<open>SystemExit msg\<close> is \<open>die\<close> (line 45: the message goes to standard
  error and the process exits with status 1), the others are the Python exceptions of the
  same names (\<open>MakoException\<close> with its message). \<open>NonStringId\<close> is not a Python
  error: it marks the one place where the model stops, the id of a page that is not a
  string (see \<open>page_id\<close>).
\<close>

datatype error =
    SystemExit string
  | KeyError string
  | AttributeError
  | TypeError
  | ValueError
  | YAMLError
  | NameError
  | MakoException string
  | NonStringId

text \<open>\<open>die\<close> (lines 45--47): the words joined by one space, then \<open>sys.exit(1)\<close>.\<close>

fun join_str :: "string \<Rightarrow> string list \<Rightarrow> string" where
  "join_str sep [] = []"
| "join_str sep [x] = x"
| "join_str sep (x # y # ys) = x @ sep @ join_str sep (y # ys)"

definition die :: "string list \<Rightarrow> error + 'a" where
  "die msg = Inl (SystemExit (join_str '' '' msg))"

text \<open>A fatal build error is exactly an exit through \<open>die\<close>.\<close>

fun is_fatal :: "error + 'a \<Rightarrow> bool" where
  "is_fatal (Inl (SystemExit m)) = True"
| "is_fatal r = False"

text \<open>A \<open>datetime\<close> value, by its fields.\<close>

datatype datetime =
  DateTime (dt_year: int) (dt_month: int) (dt_day: int)
           (dt_hour: int) (dt_minute: int) (dt_second: int)

text \<open>
  The values a page attribute or a front-matter entry holds: what the YAML loader returns
  (null, booleans, integers, strings, timestamps, sequences, mappings in iteration order),
  the tuple \<open>norm_tags\<close> builds, and a reference to a page object (an address of the
  store below).
\<close>

type_synonym addr = nat

datatype val =
    VNone
  | VBool bool
  | VInt int
  | VStr string
  | VTime datetime
  | VSeq "val list"
  | VTuple "val list"
  | VMap "(val \<times> val) list"
  | VRef addr

text \<open>Python truth value; a page is a dictionary that always has keys, so it is true.\<close>

fun truthy :: "val \<Rightarrow> bool" where
  "truthy VNone = False"
| "truthy (VBool b) = b"
| "truthy (VInt i) = (i \<noteq> 0)"
| "truthy (VStr s) = (s \<noteq> [])"
| "truthy (VTime d) = True"
| "truthy (VSeq vs) = (vs \<noteq> [])"
| "truthy (VTuple vs) = (vs \<noteq> [])"
| "truthy (VMap kvs) = (kvs \<noteq> [])"
| "truthy (VRef a) = True"

section \<open>Characters and strings\<close>

text \<open>The ASCII classes the program uses, each by the list of its characters.\<close>

definition upper_letters :: string where
  "upper_letters = ''ABCDEFGHIJKLMNOPQRSTUVWXYZ''"

definition lower_letters :: string where
  "lower_letters = ''abcdefghijklmnopqrstuvwxyz''"

definition digit_chars :: string where
  "digit_chars = ''0123456789''"

definition is_upper :: "char \<Rightarrow> bool" where
  "is_upper c = (c \<in> set upper_letters)"

definition is_lower :: "char \<Rightarrow> bool" where
  "is_lower c = (c \<in> set lower_letters)"

definition is_digit :: "char \<Rightarrow> bool" where
  "is_digit c = (c \<in> set digit_chars)"

text \<open>The class \<open>[A-Za-z0-9]\<close> of line 39.\<close>

definition is_alnum :: "char \<Rightarrow> bool" where
  "is_alnum c = (is_upper c \<or> is_lower c \<or> is_digit c)"

text \<open>Whitespace of a byte string: space, \<open>\t \n \v \f \r\<close>.\<close>

definition is_space :: "char \<Rightarrow> bool" where
  "is_space c = (c \<in> set [CHR '' '', CHR 0x09, CHR 0x0A, CHR 0x0B, CHR 0x0C, CHR 0x0D])"

text \<open>
  Whitespace of a unicode string, as far as U+00FF: the six above, the separators
  U+001C to U+001F, next line U+0085 and no-break space U+00A0.
\<close>

definition is_uspace :: "char \<Rightarrow> bool" where
  "is_uspace c =
     (is_space c \<or> c \<in> set [CHR 0x1C, CHR 0x1D, CHR 0x1E, CHR 0x1F, CHR 0x85, CHR 0xA0])"

text \<open>
  A character of ASCII has its top bit clear. The whitespace \<open>split\<close> uses on a string
  the loader returned: that of a byte string when all its characters are ASCII, that of
  a unicode string otherwise.
\<close>

definition is_ascii :: "char \<Rightarrow> bool" where
  "is_ascii c = (\<not> digit7 c)"

definition whitespace_of :: "string \<Rightarrow> char \<Rightarrow> bool" where
  "whitespace_of s = (if list_all is_ascii s then is_space else is_uspace)"

text \<open>\<open>str.lower\<close>: the letters A--Z move to a--z, every other byte stays.\<close>

definition lower_char :: "char \<Rightarrow> char" where
  "lower_char c = (case map_of (zip upper_letters lower_letters) c of None \<Rightarrow> c | Some l \<Rightarrow> l)"

definition lower :: "string \<Rightarrow> string" where
  "lower s = map lower_char s"

text \<open>
  \<open>strip()\<close> on text that comes from a content file, a unicode string: whitespace
  removed at both ends.
\<close>

definition strip :: "string \<Rightarrow> string" where
  "strip s = rev (dropWhile is_uspace (rev (dropWhile is_uspace s)))"

text \<open>\<open>str(n)\<close> for an integer: decimal digits, a minus sign when negative.\<close>

function str_digits :: "int \<Rightarrow> string" where
  "str_digits n =
     (if n < 10 then [digit_chars ! nat n]
      else str_digits (n div 10) @ [digit_chars ! nat (n mod 10)])"
  by pat_completeness auto
termination
  by (relation "measure nat") auto

declare str_digits.simps [simp del]

definition str_int :: "int \<Rightarrow> string" where
  "str_int i = (if i < 0 then CHR ''-'' # str_digits (- i) else str_digits i)"

text \<open>
  \<open>re.sub(P+, r, s)\<close> for a character class \<open>P\<close>: every maximal run of characters of
  the class is replaced by \<open>r\<close>.
\<close>

function sub_runs :: "(char \<Rightarrow> bool) \<Rightarrow> string \<Rightarrow> string \<Rightarrow> string" where
  "sub_runs P r [] = []"
| "sub_runs P r (c # cs) =
     (if P c then r @ sub_runs P r (dropWhile P cs) else c # sub_runs P r cs)"
  by pat_completeness auto
termination
  by (relation "measure (\<lambda>(P, r, s). length s)")
     (auto simp: length_dropWhile_le le_imp_less_Suc)

text \<open>\<open>s.split(c)\<close> with a one-character separator: never empty, \<open>''''\<close> gives \<open>['''']\<close>.\<close>

fun split_on :: "char \<Rightarrow> string \<Rightarrow> string list" where
  "split_on c [] = [[]]"
| "split_on c (x # xs) =
     (if x = c then [] # split_on c xs
      else (case split_on c xs of [] \<Rightarrow> [[x]] | w # ws \<Rightarrow> (x # w) # ws))"

text \<open>
  Splitting at whitespace \<open>P\<close>: the maximal runs of characters outside \<open>P\<close>, in order.
\<close>

function split_runs :: "(char \<Rightarrow> bool) \<Rightarrow> string \<Rightarrow> string list" where
  "split_runs P s =
     (case dropWhile P s of
        [] \<Rightarrow> []
      | c # cs \<Rightarrow> (c # takeWhile (\<lambda>d. \<not> P d) cs)
                  # split_runs P (dropWhile (\<lambda>d. \<not> P d) cs))"
  by pat_completeness auto
termination
proof (relation "measure (\<lambda>(P, s). length s)", simp, goal_cases)
  case (1 P s c cs)
  have "length (dropWhile (\<lambda>d. \<not> P d) cs) \<le> length cs"
    by (rule length_dropWhile_le)
  moreover have "length (c # cs) \<le> length s"
    using length_dropWhile_le [of P s] 1 by simp
  ultimately show ?case by simp
qed

declare split_runs.simps [simp del]

text \<open>\<open>s.split(None)\<close> on a string the loader returned.\<close>

definition split_ws :: "string \<Rightarrow> string list" where
  "split_ws s = split_runs (whitespace_of s) s"

section \<open>Normalizer (lines 39--61)\<close>

text \<open>Line 39: \<open>alphanum = lambda s: re.sub('[^A-Za-z0-9]', '', s)\<close>.\<close>

definition alphanum :: "string \<Rightarrow> string" where
  "alphanum s = filter is_alnum s"

text \<open>Line 53: \<open>norm_key = lambda s: re.sub('[- ]+', '_', s.lower())\<close>.\<close>

definition dash_or_space :: "char \<Rightarrow> bool" where
  "dash_or_space c = (c = CHR ''-'' \<or> c = CHR '' '')"

definition norm_key :: "string \<Rightarrow> string" where
  "norm_key s = sub_runs dash_or_space ''_'' (lower s)"

text \<open>
  Iterating a value with \<open>for\<close>: a string gives its characters, a sequence or tuple its
  elements, a mapping its keys; anything else is not iterable. (A page reference never
  reaches this function: front matter holds YAML values only.)
\<close>

fun iter_val :: "val \<Rightarrow> error + val list" where
  "iter_val (VStr s) = Inr (map (\<lambda>c. VStr [c]) s)"
| "iter_val (VSeq vs) = Inr vs"
| "iter_val (VTuple vs) = Inr vs"
| "iter_val (VMap kvs) = Inr (map fst kvs)"
| "iter_val v = Inl TypeError"

text \<open>\<open>alphanum\<close> on a value: \<open>re.sub\<close> raises TypeError on anything but a string.\<close>

fun alphanum_val :: "val \<Rightarrow> error + string" where
  "alphanum_val (VStr s) = Inr (alphanum s)"
| "alphanum_val v = Inl TypeError"

fun map_err :: "('a \<Rightarrow> error + 'b) \<Rightarrow> 'a list \<Rightarrow> error + 'b list" where
  "map_err f [] = Inr []"
| "map_err f (x # xs) =
     (case f x of
        Inl e \<Rightarrow> Inl e
      | Inr y \<Rightarrow> (case map_err f xs of Inl e \<Rightarrow> Inl e | Inr ys \<Rightarrow> Inr (y # ys)))"

text \<open>
  Lines 55--57.
  \<^verbatim>\<open>
  def norm_tags(obj):
      tags = is_str(obj) and obj.split(',' in obj and ',' or None) or obj
      return tuple(filter(bool, (alphanum(tag) for tag in tags)))
  \<close>
  When the split of a string is the empty list, \<open>or obj\<close> makes \<open>tags\<close> the string
  itself, which is then iterated character by character.
\<close>

definition split_tags :: "string \<Rightarrow> string list" where
  "split_tags s = (if CHR '','' \<in> set s then split_on (CHR '','') s else split_ws s)"

definition norm_tags :: "val \<Rightarrow> error + string list" where
  "norm_tags obj =
     (case (case obj of
              VStr s \<Rightarrow>
                (if split_tags s \<noteq> [] then Inr (map VStr (split_tags s)) else iter_val obj)
            | _ \<Rightarrow> iter_val obj) of
        Inl e \<Rightarrow> Inl e
      | Inr tags \<Rightarrow>
          (case map_err alphanum_val tags of
             Inl e \<Rightarrow> Inl e
           | Inr ts \<Rightarrow> Inr (filter (\<lambda>t. t \<noteq> []) ts)))"

text \<open>
  The arguments \<open>join_url\<close> is called with are strings, integers (a year) and the
  \<open>False\<close> or \<open>0\<close> a short-circuited \<open>and\<close> leaves; \<open>str\<close> and the truth value of
  each:
\<close>

datatype part = PStr string | PInt int | PBool bool

fun part_true :: "part \<Rightarrow> bool" where
  "part_true (PStr s) = (s \<noteq> [])"
| "part_true (PInt i) = (i \<noteq> 0)"
| "part_true (PBool b) = b"

fun str_part :: "part \<Rightarrow> string" where
  "str_part (PStr s) = s"
| "str_part (PInt i) = str_int i"
| "str_part (PBool b) = (if b then ''True'' else ''False'')"

text \<open>\<open>re.sub('//+', '/', s)\<close>: a run of two or more slashes becomes one slash.\<close>

function collapse_slashes :: "string \<Rightarrow> string" where
  "collapse_slashes [] = []"
| "collapse_slashes (c # cs) =
     (if c = CHR ''/'' then CHR ''/'' # collapse_slashes (dropWhile (\<lambda>d. d = CHR ''/'') cs)
      else c # collapse_slashes cs)"
  by pat_completeness auto
termination
  by (relation "measure length") (auto simp: length_dropWhile_le le_imp_less_Suc)

text \<open>
  Lines 59--61, with the site's \<open>clean_urls\<close> setting as a parameter.
  \<^verbatim>\<open>
  def join_url(*parts, **kwargs):
      ext = (kwargs.get('ext', 1) and not site['clean_urls']) and '.html' or ''
      return re.sub('//+', '/', '/'.join(str(s) for s in parts if s)) + ext
  \<close>
\<close>

definition join_url :: "bool \<Rightarrow> bool \<Rightarrow> part list \<Rightarrow> string" where
  "join_url clean_urls ext parts =
     collapse_slashes (join_str ''/'' (map str_part (filter part_true parts)))
       @ (if ext \<and> \<not> clean_urls then ''.html'' else '''')"


section \<open>Pages (lines 75--141)\<close>

text \<open>
  \<open>class Page(dict)\<close>: a page is a dictionary from attribute names to values, and
  \<open>page.name\<close> is \<open>page[name]\<close> (lines 90--91), a KeyError when the key is missing.
\<close>

type_synonym page = "string \<rightharpoonup> val"

definition getattr :: "page \<Rightarrow> string \<Rightarrow> error + val" where
  "getattr p name = (case p name of None \<Rightarrow> Inl (KeyError name) | Some v \<Rightarrow> Inr v)"

text \<open>\<open>dict.update\<close> with a list of items, in order.\<close>

fun update_items :: "page \<Rightarrow> (string \<times> val) list \<Rightarrow> page" where
  "update_items p [] = p"
| "update_items p ((k, v) # kvs) = update_items (p(k \<mapsto> v)) kvs"

text \<open>
  Lines 79--88. Every caller passes a string as \<open>id\<close>, so \<open>str(id)\<close> is that string.
\<close>

definition Page_init :: "string \<Rightarrow> (string \<times> val) list \<Rightarrow> page" where
  "Page_init i attrs =
     update_items
       (update_items Map.empty
          [(''date'', VNone), (''posted'', VNone), (''id'', VStr i),
           (''title'', VStr ''''), (''template'', VStr '''')])
       attrs"

text \<open>
  The id of a page, where the registry and the sort keys read it. It is a string in every
  page the build makes: \<open>Page_init\<close> stores a string, a dated content page and an archive
  page get a \<open>join_url\<close> result. Only a front-matter entry \<open>id\<close> of an undated page can
  put another YAML value there; how Python 2 hashes and orders such a value against
  strings is not modelled, and reading it gives \<open>NonStringId\<close>.
\<close>

definition page_id :: "page \<Rightarrow> error + string" where
  "page_id p =
     (case p ''id'' of
        None \<Rightarrow> Inl (KeyError ''id'')
      | Some (VStr s) \<Rightarrow> Inr s
      | Some v \<Rightarrow> Inl NonStringId)"

text \<open>
  What the program takes from its libraries and from the site configuration: the YAML
  loader, the Markdown converter, \<open>dateutil.parser.parse(str(s), fuzzy=True)\<close>,
  \<open>time.mktime(dt.timetuple())\<close> as an integer, and the setting \<open>clean_urls\<close>.
\<close>

record env =
  yaml_load :: "string \<Rightarrow> error + val"
  markdown :: "string \<Rightarrow> string"
  parse_time :: "val \<Rightarrow> error + datetime"
  mktime :: "datetime \<Rightarrow> int"
  clean_urls :: bool

text \<open>
  Line 43: \<open>timestamp = lambda dt: dt and int(time.mktime(dt.timetuple())) or 0\<close>.
  A true value that is not a datetime has no \<open>timetuple\<close>.
\<close>

definition timestamp :: "(datetime \<Rightarrow> int) \<Rightarrow> val \<Rightarrow> error + int" where
  "timestamp mk dt =
     (if truthy dt then (case dt of VTime d \<Rightarrow> Inr (mk d) | _ \<Rightarrow> Inl AttributeError)
      else Inr 0)"

text \<open>
  Lines 76--77.
  \<^verbatim>\<open>
  sortkey_origin = lambda self: (timestamp(self.date), self.id)
  sortkey_posted = lambda self: (timestamp(self.posted or self.date), self.id)
  \<close>
\<close>

definition sortkey_origin :: "(datetime \<Rightarrow> int) \<Rightarrow> page \<Rightarrow> error + (int \<times> string)" where
  "sortkey_origin mk p =
     (case getattr p ''date'' of
        Inl e \<Rightarrow> Inl e
      | Inr d \<Rightarrow>
          (case timestamp mk d of
             Inl e \<Rightarrow> Inl e
           | Inr t \<Rightarrow> (case page_id p of Inl e \<Rightarrow> Inl e | Inr i \<Rightarrow> Inr (t, i))))"


subsection \<open>Content pages (lines 98--129)\<close>

text \<open>
  Line 54: \<open>norm_time = lambda s: s and dateutil.parser.parse(str(s), fuzzy=True) or None\<close>.
\<close>

definition norm_time :: "env \<Rightarrow> val \<Rightarrow> error + val" where
  "norm_time env s =
     (if truthy s then (case parse_time env s of Inl e \<Rightarrow> Inl e | Inr d \<Rightarrow> Inr (VTime d))
      else Inr VNone)"

text \<open>The converter applied to a value: anything but a string has no \<open>strip\<close>.\<close>

definition markdown_val :: "env \<Rightarrow> val \<Rightarrow> error + val" where
  "markdown_val env v = (case v of VStr s \<Rightarrow> Inr (VStr (markdown env s)) | _ \<Rightarrow> Inl AttributeError)"

text \<open>Lines 99--103 and the lookup \<open>self.NORM.get(key, identity)(val)\<close> of line 115.\<close>

definition NORM :: "env \<Rightarrow> string \<Rightarrow> val \<Rightarrow> error + val" where
  "NORM env key v =
     (if key = ''date'' \<or> key = ''posted'' then norm_time env v
      else if key = ''tags'' \<or> key = ''category'' then
        (case norm_tags v of Inl e \<Rightarrow> Inl e | Inr ts \<Rightarrow> Inr (VTuple (map VStr ts)))
      else if key = ''summary'' then markdown_val env v
      else Inr v)"

text \<open>
  Lines 113--115, over the items of the mapping in its iteration order. A key that is not
  a string has no \<open>lower\<close>.
\<close>

fun head_items :: "env \<Rightarrow> (val \<times> val) list \<Rightarrow> page \<Rightarrow> error + page" where
  "head_items env [] p = Inr p"
| "head_items env ((k, v) # kvs) p =
     (case k of
        VStr ks \<Rightarrow>
          (case NORM env (norm_key ks) v of
             Inl e \<Rightarrow> Inl e
           | Inr w \<Rightarrow> head_items env kvs (p(norm_key ks \<mapsto> w)))
      | _ \<Rightarrow> Inl AttributeError)"

text \<open>
  \<open>posixpath.basename\<close>: what follows the last slash. \<open>posixpath.splitext\<close>: the
  extension starts at the last dot of the last component, unless only dots come before it
  there.
\<close>

definition basename :: "string \<Rightarrow> string" where
  "basename p = rev (takeWhile (\<lambda>c. c \<noteq> CHR ''/'') (rev p))"

definition splitext :: "string \<Rightarrow> string \<times> string" where
  "splitext p =
     (let f = basename p;
          e = rev (takeWhile (\<lambda>c. c \<noteq> CHR ''.'') (rev f));
          stem = take (length f - Suc (length e)) f
      in if CHR ''.'' \<in> set f \<and> list_ex (\<lambda>c. c \<noteq> CHR ''.'') stem
         then (take (length p - Suc (length e)) p, CHR ''.'' # e)
         else (p, []))"

text \<open>The first occurrence of a substring: what comes before it and what comes after.\<close>

fun find_sub :: "string \<Rightarrow> string \<Rightarrow> (string \<times> string) option" where
  "find_sub pat [] = (if pat = [] then Some ([], []) else None)"
| "find_sub pat (c # cs) =
     (if take (length pat) (c # cs) = pat then Some ([], drop (length pat) (c # cs))
      else (case find_sub pat cs of None \<Rightarrow> None | Some (b, a) \<Rightarrow> Some (c # b, a)))"

text \<open>
  Lines 109--111, without the YAML loader.
  \<^verbatim>\<open>
  data = fp.read().split('\n\n', 1)
  head = yaml.load(data.pop(0))
  body = data and data.pop() or ''
  \<close>
  The result is the text handed to the loader and the body.
\<close>

definition blank_line :: string where
  "blank_line = [CHR 0x0A, CHR 0x0A]"

definition split_front :: "string \<Rightarrow> string \<times> string" where
  "split_front text =
     (case find_sub blank_line text of
        None \<Rightarrow> (text, [])
      | Some (h, b) \<Rightarrow> (h, b))"

text \<open>
  Lines 104 and 125--129: \<open>SUMMARY.sub(_summary, body)\<close> for the pattern
  \<open>(<summary>)(.*?)(</summary>)\<close> with DOTALL. Each match runs from an opening tag to the
  nearest closing tag after it and is replaced by its stripped inner text; the search
  goes on after the match. The second component is the inner text of the last match, the
  one \<open>self['summary']\<close> keeps.
\<close>

lemma find_sub_eq: "find_sub pat s = Some (b, a) \<Longrightarrow> s = b @ pat @ a"
proof (induction s arbitrary: b)
  case Nil
  then show ?case by (simp split: if_splits)
next
  case (Cons c cs)
  show ?case
  proof (cases "take (length pat) (c # cs) = pat")
    case True
    with Cons.prems have "b = []" "a = drop (length pat) (c # cs)" by simp_all
    with True show ?thesis
      using append_take_drop_id [of "length pat" "c # cs"] by simp
  next
    case False
    with Cons.prems obtain b' where "find_sub pat cs = Some (b', a)" "b = c # b'"
      by (auto split: option.splits)
    with Cons.IH show ?thesis by simp
  qed
qed

function sub_summary :: "string \<Rightarrow> string \<times> string option" where
  "sub_summary s =
     (case find_sub ''<summary>'' s of
        None \<Rightarrow> (s, None)
      | Some (pre, rest) \<Rightarrow>
          (case find_sub ''</summary>'' rest of
             None \<Rightarrow> (s, None)
           | Some (inner, post) \<Rightarrow>
               (case sub_summary post of
                  (t, later) \<Rightarrow>
                    (pre @ strip inner @ t,
                     (case later of None \<Rightarrow> Some (strip inner) | Some l \<Rightarrow> Some l)))))"
  by pat_completeness auto
termination
  by (relation "measure length") (auto dest!: find_sub_eq)

declare sub_summary.simps [simp del]

text \<open>\<open>strftime('%B')\<close> in the C locale; it refuses a year before 1900.\<close>

definition month_name :: "int \<Rightarrow> string" where
  "month_name m =
     (if 1 \<le> m \<and> m \<le> 12 then
        [''January'', ''February'', ''March'', ''April'', ''May'', ''June'', ''July'',
         ''August'', ''September'', ''October'', ''November'', ''December''] ! nat (m - 1)
      else [])"

text \<open>Lines 116--123.\<close>

definition dated_update :: "env \<Rightarrow> string \<Rightarrow> page \<Rightarrow> error + page" where
  "dated_update env i p =
     (case getattr p ''date'' of
        Inl e \<Rightarrow> Inl e
      | Inr d \<Rightarrow>
          if truthy d then
            (case d of
               VTime t \<Rightarrow>
                 (case getattr p ''template'' of
                    Inl e \<Rightarrow> Inl e
                  | Inr tpl \<Rightarrow>
                      if dt_year t < 1900 then Inl ValueError
                      else Inr (update_items p
                        [(''id'', VStr (join_url (clean_urls env) False [PInt (dt_year t), PStr i])),
                         (''template'', if truthy tpl then tpl else VStr ''entry''),
                         (''month_name'', VStr (month_name (dt_month t))),
                         (''prevpost'', VNone),
                         (''nextpost'', VNone)]))
             | _ \<Rightarrow> Inl AttributeError)
          else Inr p)"

text \<open>Lines 125--129.\<close>

definition body_update :: "env \<Rightarrow> string \<Rightarrow> page \<Rightarrow> page" where
  "body_update env body p =
     (case sub_summary body of
        (text, summ) \<Rightarrow>
          (case summ of None \<Rightarrow> p | Some s \<Rightarrow> p(''summary'' \<mapsto> VStr (markdown env s)))
            (''content'' \<mapsto> VStr (markdown env (strip text))))"

text \<open>An open content file: its name, its last-write time, its text.\<close>

record source_file =
  fp_name :: string
  fp_mtime :: datetime
  fp_text :: string

text \<open>
  \<open>ContentPage.__init__\<close>, lines 106--129. A loader result that is not a mapping has no
  \<open>items\<close>.
\<close>

definition ContentPage :: "env \<Rightarrow> source_file \<Rightarrow> error + page" where
  "ContentPage env fp =
     (let i = fst (splitext (basename (fp_name fp)));
          p0 = Page_init i [(''modified'', VTime (fp_mtime fp))]
      in case split_front (fp_text fp) of
           (head_text, body) \<Rightarrow>
             (case yaml_load env head_text of
                Inl e \<Rightarrow> Inl e
              | Inr head \<Rightarrow>
                  (case head of
                     VMap kvs \<Rightarrow>
                       (case head_items env kvs p0 of
                          Inl e \<Rightarrow> Inl e
                        | Inr p1 \<Rightarrow>
                            (case dated_update env i p1 of
                               Inl e \<Rightarrow> Inl e
                             | Inr p2 \<Rightarrow> Inr (body_update env body p2)))
                   | _ \<Rightarrow> Inl AttributeError)))"

text \<open>
  What front matter supplies for a canonical key: the value of the last item whose key
  canonicalizes to it, if there is one.
\<close>

fun supplied :: "string \<Rightarrow> (val \<times> val) list \<Rightarrow> val option" where
  "supplied key [] = None"
| "supplied key ((k, v) # kvs) =
     (case supplied key kvs of
        Some w \<Rightarrow> Some w
      | None \<Rightarrow> (case k of VStr ks \<Rightarrow> if norm_key ks = key then Some v else None | _ \<Rightarrow> None))"

text \<open>An attribute of the page a call returned, \<open>None\<close> when the call failed.\<close>

definition result_attr :: "error + page \<Rightarrow> string \<Rightarrow> val option" where
  "result_attr r k = (case r of Inl e \<Rightarrow> None | Inr p \<Rightarrow> p k)"

section \<open>The page registry (lines 143--163)\<close>

text \<open>
  Page objects are shared: the registry, the per-year lists and the entries of an archive
  page all hold references to the same objects, and archive derivation writes into them.
  So the objects live in a store, a function from addresses to pages with a counter for
  the next unused address, and everything else holds addresses. \<open>pages\<close> is
  \<open>PageManager.pages\<close>, the dictionary from id to page object, as the list of its items;
  a new key goes to the end. (The template lookup of line 148 is not modelled.)
\<close>

record state =
  heap :: "addr \<Rightarrow> page"
  fresh :: addr
  pages :: "(string \<times> addr) list"

definition empty_state :: state where
  "empty_state = \<lparr> heap = (\<lambda>a. Map.empty), fresh = 0, pages = [] \<rparr>"

text \<open>A newly constructed object: it takes the next address.\<close>

definition new_object :: "page \<Rightarrow> state \<Rightarrow> addr \<times> state" where
  "new_object p st = (fresh st, st\<lparr> heap := (heap st)(fresh st := p), fresh := Suc (fresh st) \<rparr>)"

text \<open>
  Lines 150--153.
  \<^verbatim>\<open>
  def add(self, page):
      if page.id in self.pages:
          die('duplicate page id: %s' % page.id)
      self.pages[page.id] = page
  \<close>
  \<open>die\<close> leaves the function before the assignment, so a failed \<open>add\<close> has no new state:
  the registry stays as it was.
\<close>

definition add :: "addr \<Rightarrow> state \<Rightarrow> error + state" where
  "add a st =
     (case page_id (heap st a) of
        Inl e \<Rightarrow> Inl e
      | Inr i \<Rightarrow>
          if i \<in> set (map fst (pages st)) then die [''duplicate page id: '' @ i]
          else Inr (st\<lparr> pages := pages st @ [(i, a)] \<rparr>))"

text \<open>
  Lines 155--156, \<open>return self.pages[id]\<close>, which is also the template helper \<open>get\<close> of
  line 246 (\<open>lambda id: pages[str(id)]\<close>) on a string.
\<close>

definition getitem :: "state \<Rightarrow> string \<Rightarrow> error + addr" where
  "getitem st i = (case map_of (pages st) i of None \<Rightarrow> Inl (KeyError i) | Some a \<Rightarrow> Inr a)"

text \<open>
  \<open>sorted(xs, key=f)\<close>: the keys are computed first, one per element, and an exception of
  \<open>f\<close> ends the call; the sort is stable.
\<close>

definition sorted_by :: "('a \<Rightarrow> error + 'k::linorder) \<Rightarrow> 'a list \<Rightarrow> error + 'a list" where
  "sorted_by f xs =
     (case map_err f xs of
        Inl e \<Rightarrow> Inl e
      | Inr ks \<Rightarrow> Inr (map snd (sort_key fst (zip ks xs))))"





section \<open>Archive derivation (lines 68--73, 131--141, 218--232)\<close>

text \<open>
  Lines 68--73.
  \<^verbatim>\<open>
  def neighbours(iterable):
      "1..4 -> (None,1,2), (1,2,3), (2,3,4), (3,4,None)"
      L = list(iterable)
      a = [None] + L[:-1]
      b = L[1:] + [None]
      return izip(a, L, b)
  \<close>
\<close>

definition neighbours :: "'a list \<Rightarrow> ('a option \<times> 'a \<times> 'a option) list" where
  "neighbours L = zip (None # map Some (butlast L)) (zip L (map Some (tl L) @ [None]))"

text \<open>\<open>'%02d' % m\<close>.\<close>

definition pad2 :: "int \<Rightarrow> string" where
  "pad2 m = (if length (str_int m) < 2 then CHR ''0'' # str_int m else str_int m)"

text \<open>
  \<open>ArchivePage.__init__\<close>, lines 133--141. With a month, the title is
  \<open>datetime(year, month, 1).strftime('%B %Y')\<close>, which needs a month in 1..12 and a year in
  1900..9999.
\<close>

definition ArchivePage :: "bool \<Rightarrow> addr list \<Rightarrow> int \<Rightarrow> int \<Rightarrow> error + page" where
  "ArchivePage clean entries year month =
     (let i = join_url clean False
                [PInt year, if month \<noteq> 0 then PStr (pad2 month) else PInt month]
      in if month \<noteq> 0 \<and> \<not> (1 \<le> month \<and> month \<le> 12 \<and> 1900 \<le> year \<and> year \<le> 9999)
         then Inl ValueError
         else Inr (Page_init i
           [(''entries'', VSeq (map VRef entries)),
            (''year'', VInt year),
            (''month'', VInt month),
            (''template'', VStr (''archive_'' @ (if month \<noteq> 0 then ''month'' else ''year''))),
            (''title'', if month \<noteq> 0 then VStr (month_name month @ '' '' @ str_int year)
                        else VInt year)]))"

text \<open>
  \<open>years[page.date.year].append(page)\<close> on the \<open>defaultdict(list)\<close> of line 218, as the
  list of its items.
\<close>

fun years_append :: "int \<Rightarrow> addr \<Rightarrow> (int \<times> addr list) list \<Rightarrow> (int \<times> addr list) list" where
  "years_append y a [] = [(y, [a])]"
| "years_append y a ((k, v) # ys) =
     (if k = y then (k, v @ [a]) # ys else (k, v) # years_append y a ys)"

text \<open>
  Lines 222--226, for the content files in the order the walk gives them.
  \<^verbatim>\<open>
  page = ContentPage(fp)
  pages.add(page)
  if page.date:
      years[page.date.year].append(page)
  \<close>
\<close>

fun load_pages ::
  "env \<Rightarrow> source_file list \<Rightarrow> state \<times> (int \<times> addr list) list
     \<Rightarrow> error + state \<times> (int \<times> addr list) list"
where
  "load_pages env [] sy = Inr sy"
| "load_pages env (fp # fps) (st, ys) =
     (case ContentPage env fp of
        Inl e \<Rightarrow> Inl e
      | Inr p \<Rightarrow>
          (case new_object p st of
             (a, st1) \<Rightarrow>
               (case add a st1 of
                  Inl e \<Rightarrow> Inl e
                | Inr st2 \<Rightarrow>
                    (case getattr p ''date'' of
                       Inl e \<Rightarrow> Inl e
                     | Inr d \<Rightarrow>
                         if truthy d then
                           (case d of
                              VTime t \<Rightarrow> load_pages env fps (st2, years_append (dt_year t) a ys)
                            | _ \<Rightarrow> Inl AttributeError)
                         else load_pages env fps (st2, ys)))))"

text \<open>
  Lines 219--221: of the files the walk finds, those whose extension is one of the
  configured \<open>content_extensions\<close>.
\<close>

definition content_files :: "string list \<Rightarrow> source_file list \<Rightarrow> source_file list" where
  "content_files exts fps =
     filter (\<lambda>fp. snd (splitext (basename (fp_name fp))) \<in> set (map (\<lambda>e. CHR ''.'' # e) exts)) fps"

definition load_content ::
  "env \<Rightarrow> string list \<Rightarrow> source_file list \<Rightarrow> error + state \<times> (int \<times> addr list) list"
where
  "load_content env exts fps = load_pages env (content_files exts fps) (empty_state, [])"

text \<open>The assignment of line 232 for one triple of \<open>neighbours\<close>.\<close>

fun ref :: "addr option \<Rightarrow> val" where
  "ref None = VNone"
| "ref (Some a) = VRef a"

fun set_links :: "(addr \<Rightarrow> page) \<Rightarrow> addr option \<times> addr \<times> addr option \<Rightarrow> (addr \<Rightarrow> page)" where
  "set_links h (prevpost, post, nextpost) =
     h(post := (h post)(''prevpost'' \<mapsto> ref prevpost, ''nextpost'' \<mapsto> ref nextpost))"

text \<open>
  The body of the loop of lines 228--232 for one year.
  \<^verbatim>\<open>
  for year, posts in sorted(years.items()):
      posts = sorted(posts, key=Page.sortkey_origin)
      pages.add(ArchivePage(posts, year))
      for prevpost, post, nextpost in neighbours(posts):
          post['prevpost'], post['nextpost'] = prevpost, nextpost
  \<close>
\<close>

definition derive_year ::
  "(datetime \<Rightarrow> int) \<Rightarrow> bool \<Rightarrow> state \<Rightarrow> int \<times> addr list \<Rightarrow> error + state"
where
  "derive_year mk clean st yp =
     (case sorted_by (\<lambda>a. sortkey_origin mk (heap st a)) (snd yp) of
        Inl e \<Rightarrow> Inl e
      | Inr posts \<Rightarrow>
          (case ArchivePage clean posts (fst yp) 0 of
             Inl e \<Rightarrow> Inl e
           | Inr ap \<Rightarrow>
               (case new_object ap st of
                  (a, st1) \<Rightarrow>
                    (case add a st1 of
                       Inl e \<Rightarrow> Inl e
                     | Inr st2 \<Rightarrow>
                         Inr (st2\<lparr> heap := foldl set_links (heap st2) (neighbours posts) \<rparr>)))))"

fun derive_years ::
  "(datetime \<Rightarrow> int) \<Rightarrow> bool \<Rightarrow> state \<Rightarrow> (int \<times> addr list) list \<Rightarrow> error + state"
where
  "derive_years mk clean st [] = Inr st"
| "derive_years mk clean st (yp # yps) =
     (case derive_year mk clean st yp of
        Inl e \<Rightarrow> Inl e
      | Inr st1 \<Rightarrow> derive_years mk clean st1 yps)"

text \<open>The whole loop: the years in ascending order.\<close>

definition derive ::
  "(datetime \<Rightarrow> int) \<Rightarrow> bool \<Rightarrow> state \<Rightarrow> (int \<times> addr list) list \<Rightarrow> error + state"
where
  "derive mk clean st years = derive_years mk clean st (sort_key fst years)"

text \<open>
  Lines 218--232 together: the content pages, then the archives and the links.
\<close>

definition build_pages :: "env \<Rightarrow> string list \<Rightarrow> source_file list \<Rightarrow> error + state" where
  "build_pages env exts fps =
     (case load_content env exts fps of
        Inl e \<Rightarrow> Inl e
      | Inr (st, years) \<Rightarrow> derive (mktime env) (clean_urls env) st years)"



text \<open>An attribute of the object at an address.\<close>

definition attr :: "state \<Rightarrow> addr \<Rightarrow> string \<Rightarrow> val option" where
  "attr st a k = heap st a k"

text \<open>
  What the loop of lines 219--226 keeps true of the per-year lists: one entry per year,
  no page twice in a list, every listed page already allocated, and no page in the lists
  of two entries.
\<close>

definition years_ok :: "state \<Rightarrow> (int \<times> addr list) list \<Rightarrow> bool" where
  "years_ok st ys \<longleftrightarrow>
     distinct (map fst ys)
     \<and> (\<forall>e\<in>set ys. distinct (snd e) \<and> (\<forall>a\<in>set (snd e). a < fresh st))
     \<and> (\<forall>e1\<in>set ys. \<forall>e2\<in>set ys. e1 \<noteq> e2 \<longrightarrow> set (snd e1) \<inter> set (snd e2) = {})"


text \<open>The same for an attribute of an object and for the query.\<close>

definition attr_in :: "error + state \<Rightarrow> addr \<Rightarrow> string \<Rightarrow> val option" where
  "attr_in r a k = (case r of Inl e \<Rightarrow> None | Inr st \<Rightarrow> attr st a k)"


section \<open>Asset synchronization (lines 201--215)\<close>

















section \<open>Rendering (lines 165--180 and 254--255)\<close>





section \<open>A sample environment\<close>

text \<open>
  Concrete stand-ins for the libraries, used where a statement is run on an example: a
  loader for flat \<open>key: value\<close> lines (every scalar a string), a converter that wraps
  non-empty text in a paragraph, a parser of \<open>YYYY-MM-DD\<close>, and \<open>mktime\<close> in UTC.
\<close>

definition demo_pair :: "string \<Rightarrow> error + (val \<times> val)" where
  "demo_pair l =
     (case find_sub '': '' l of
        None \<Rightarrow> Inl YAMLError
      | Some (k, v) \<Rightarrow> Inr (VStr k, VStr v))"

definition demo_yaml :: "string \<Rightarrow> error + val" where
  "demo_yaml s =
     (if s = [] then Inr VNone
      else (case map_err demo_pair (split_on (CHR 0x0A) s) of
              Inl e \<Rightarrow> Inl e
            | Inr kvs \<Rightarrow> Inr (VMap kvs)))"

definition demo_markdown :: "string \<Rightarrow> string" where
  "demo_markdown s = (if s = [] then [] else ''<p>'' @ s @ ''</p>'')"

definition digits_val :: "string \<Rightarrow> int" where
  "digits_val s =
     foldl (\<lambda>n c. 10 * n + (case map_of (zip digit_chars [0, 1, 2, 3, 4, 5, 6, 7, 8, 9]) c of
                                None \<Rightarrow> 0 | Some d \<Rightarrow> d)) 0 s"

definition demo_parse_time :: "val \<Rightarrow> error + datetime" where
  "demo_parse_time v =
     (case v of
        VStr s \<Rightarrow>
          (if length s = 10 \<and> list_all is_digit (take 4 s @ take 2 (drop 5 s) @ drop 8 s)
           then Inr (DateTime (digits_val (take 4 s)) (digits_val (take 2 (drop 5 s)))
                       (digits_val (drop 8 s)) 0 0 0)
           else Inl ValueError)
      | _ \<Rightarrow> Inl ValueError)"

definition days_from_civil :: "int \<Rightarrow> int \<Rightarrow> int \<Rightarrow> int" where
  "days_from_civil y m d =
     (let y1 = (if m \<le> 2 then y - 1 else y);
          era = y1 div 400;
          yoe = y1 - era * 400;
          doy = (153 * (if m > 2 then m - 3 else m + 9) + 2) div 5 + d - 1;
          doe = yoe * 365 + yoe div 4 - yoe div 100 + doy
      in era * 146097 + doe - 719468)"

definition demo_mktime :: "datetime \<Rightarrow> int" where
  "demo_mktime t =
     days_from_civil (dt_year t) (dt_month t) (dt_day t) * 86400
       + dt_hour t * 3600 + dt_minute t * 60 + dt_second t"

definition demo_env :: env where
  "demo_env = \<lparr> yaml_load = demo_yaml, markdown = demo_markdown,
       parse_time = demo_parse_time, mktime = demo_mktime, clean_urls = False \<rparr>"

definition demo_undated :: source_file where
  "demo_undated = \<lparr> fp_name = ''content/about.md'', fp_mtime = DateTime 2021 3 4 5 6 7,
       fp_text = ''title: Hello'' \<rparr>"

definition demo_dated :: source_file where
  "demo_dated = \<lparr> fp_name = ''content/first-post.md'', fp_mtime = DateTime 2021 3 4 5 6 7,
       fp_text = ''Title: First'' @ [CHR 0x0A] @ ''Date: 2020-06-01'' @ blank_line
                   @ ''Some <summary> short </summary> text.'' \<rparr>"

text \<open>A content file \<open>content/n.md\<close> with the front matter \<open>h\<close> and a short body.\<close>

definition demo_post :: "string \<Rightarrow> string \<Rightarrow> source_file" where
  "demo_post n h = \<lparr> fp_name = ''content/'' @ n @ ''.md'', fp_mtime = DateTime 2021 3 4 5 6 7,
       fp_text = h @ blank_line @ ''text'' \<rparr>"

text \<open>A site with three posts in 2020, one in 2021 and an undated page.\<close>

definition demo_site :: "source_file list" where
  "demo_site =
     [demo_post ''jun'' ''Date: 2020-06-01'', demo_post ''new'' ''Date: 2021-01-01'',
      demo_post ''jan'' ''Date: 2020-01-01'', demo_post ''dec'' ''Date: 2020-12-31'',
      demo_undated]"



text \<open>
  A store with three pages that all have the id \<open>about\<close>, and a registry that holds the
  first of them; the same store with an empty registry.
\<close>

definition demo_registry :: state where
  "demo_registry =
     \<lparr> heap = (\<lambda>a. if a = 0 then Page_init ''about'' []
                  else if a = 1 then Page_init ''about'' [(''title'', VStr ''Second'')]
                  else if a = 2 then Page_init ''about'' [(''title'', VStr ''Third'')]
                  else Map.empty),
       fresh = 3,
       pages = [(''about'', 0)] \<rparr>"

definition demo_unregistered :: state where
  "demo_unregistered = demo_registry\<lparr> pages := [] \<rparr>"






section \<open>Properties of the normalizer\<close>

subsection \<open>Key canonicalization\<close>

lemma set_sub_runs: "set (sub_runs P r s) \<subseteq> set r \<union> {c \<in> set s. \<not> P c}"
proof (induction P r s rule: sub_runs.induct)
  case (1 P r)
  then show ?case by simp
next
  case (2 P r c cs)
  show ?case
  proof (cases "P c")
    case True
    with 2 have "set (sub_runs P r (dropWhile P cs)) \<subseteq> set r \<union> {c \<in> set (dropWhile P cs). \<not> P c}"
      by simp
    moreover have "set (dropWhile P cs) \<subseteq> set cs"
      by (auto dest: set_dropWhileD)
    ultimately show ?thesis using True by auto
  next
    case False
    with 2 show ?thesis by auto
  qed
qed

lemma sub_runs_none: "list_all (\<lambda>c. \<not> P c) s \<Longrightarrow> sub_runs P r s = s"
  by (induction s) auto

lemma lower_char_cases:
  "lower_char c = c \<and> c \<notin> set upper_letters \<or> lower_char c \<in> set lower_letters"
proof (cases "map_of (zip upper_letters lower_letters) c")
  case None
  then have "c \<notin> fst ` set (zip upper_letters lower_letters)"
    by (simp add: map_of_eq_None_iff)
  moreover have "map fst (zip upper_letters lower_letters) = upper_letters"
    by (rule map_fst_zip) (simp add: upper_letters_def lower_letters_def)
  ultimately have "c \<notin> set upper_letters" by (metis set_map)
  with None show ?thesis by (simp add: lower_char_def)
next
  case (Some l)
  then have "(c, l) \<in> set (zip upper_letters lower_letters)" by (rule map_of_SomeD)
  then have "l \<in> set lower_letters" by (rule set_zip_rightD)
  with Some show ?thesis by (simp add: lower_char_def)
qed

lemma lower_not_upper_letter: "l \<in> set lower_letters \<Longrightarrow> l \<notin> set upper_letters"
  by (auto simp: lower_letters_def upper_letters_def)

lemma lower_char_not_upper: "\<not> is_upper (lower_char c)"
  using lower_char_cases [of c] lower_not_upper_letter [of "lower_char c"]
  by (auto simp: is_upper_def)

lemma lower_char_id: "\<not> is_upper c \<Longrightarrow> lower_char c = c"
proof -
  assume "\<not> is_upper c"
  moreover have "map fst (zip upper_letters lower_letters) = upper_letters"
    by (rule map_fst_zip) (simp add: upper_letters_def lower_letters_def)
  ultimately have "c \<notin> fst ` set (zip upper_letters lower_letters)"
    unfolding is_upper_def by (metis set_map)
  then have "map_of (zip upper_letters lower_letters) c = None"
    by (simp add: map_of_eq_None_iff)
  then show ?thesis by (simp add: lower_char_def)
qed

lemma lower_none: "list_all (\<lambda>c. \<not> is_upper c) s \<Longrightarrow> lower s = s"
  by (induction s) (auto simp: lower_def lower_char_id)

lemma norm_key_chars:
  "list_all (\<lambda>c. \<not> is_upper c \<and> \<not> dash_or_space c) (norm_key s)"
proof -
  have "c \<in> set (norm_key s) \<Longrightarrow> \<not> is_upper c \<and> \<not> dash_or_space c" for c
  proof -
    assume "c \<in> set (norm_key s)"
    then have "c \<in> set ''_'' \<union> {c \<in> set (lower s). \<not> dash_or_space c}"
      using set_sub_runs [of dash_or_space "''_''" "lower s"] by (auto simp: norm_key_def)
    then consider "c = CHR ''_''" | x where "c = lower_char x" "\<not> dash_or_space c"
      by (auto simp: lower_def)
    then show ?thesis
    proof cases
      case 1
      then show ?thesis by (simp add: is_upper_def upper_letters_def dash_or_space_def)
    next
      case 2
      then show ?thesis by (simp add: lower_char_not_upper)
    qed
  qed
  then show ?thesis by (simp add: list_all_iff)
qed

lemma norm_key_idem: "norm_key (norm_key s) = norm_key s"
proof -
  have a: "list_all (\<lambda>c. \<not> is_upper c) (norm_key s)"
    and b: "list_all (\<lambda>c. \<not> dash_or_space c) (norm_key s)"
    using norm_key_chars [of s] by (simp_all add: list_all_iff)
  have "lower (norm_key s) = norm_key s" by (rule lower_none [OF a])
  moreover have "sub_runs dash_or_space ''_'' (norm_key s) = norm_key s"
    by (rule sub_runs_none [OF b])
  ultimately show ?thesis by (simp add: norm_key_def)
qed

subsection \<open>Splitting\<close>
lemma split_on_nonempty: "split_on c s \<noteq> []"
  by (induction s) (auto split: list.splits)

lemma split_on_join: "join_str [c] (split_on c s) = s"
proof (induction s)
  case Nil then show ?case by simp
next
  case (Cons x xs)
  obtain w ws where w: "split_on c xs = w # ws"
    using split_on_nonempty [of c xs] by (cases "split_on c xs") auto
  show ?case
  proof (cases "x = c")
    case True
    with Cons w show ?thesis by simp
  next
    case False
    with Cons w show ?thesis by (cases ws) auto
  qed
qed

lemma split_on_no_sep: "list_all (\<lambda>w. c \<notin> set w) (split_on c s)"
  by (induction s) (auto split: list.splits)

lemma split_runs_Nil: "dropWhile P s = [] \<Longrightarrow> split_runs P s = []"
  by (subst split_runs.simps) (simp only: list.case)

lemma split_runs_Cons:
  "dropWhile P s = c # cs \<Longrightarrow>
   split_runs P s = (c # takeWhile (\<lambda>d. \<not> P d) cs)
                      # split_runs P (dropWhile (\<lambda>d. \<not> P d) cs)"
  by (subst split_runs.simps) (simp only: list.case)

lemma split_runs_empty_iff: "split_runs P s = [] \<longleftrightarrow> list_all P s"
proof (cases "dropWhile P s")
  case Nil
  then show ?thesis by (simp add: split_runs_Nil list_all_iff dropWhile_eq_Nil_conv)
next
  case (Cons c cs)
  then have "\<not> list_all P s"
    by (metis dropWhile_eq_Nil_conv list.distinct(1) list_all_iff)
  then show ?thesis using Cons by (simp add: split_runs_Cons)
qed

lemma split_runs_tokens:
  "list_all (\<lambda>w. w \<noteq> [] \<and> list_all (\<lambda>c. \<not> P c) w) (split_runs P s)"
proof (induction P s rule: split_runs.induct)
  case (1 P s)
  show ?case
  proof (cases "dropWhile P s")
    case Nil
    then show ?thesis by (simp add: split_runs_Nil)
  next
    case (Cons c cs)
    have "\<not> P c" using Cons hd_dropWhile [of P s] by auto
    moreover have "list_all (\<lambda>c. \<not> P c) (takeWhile (\<lambda>d. \<not> P d) cs)"
      by (auto simp: list_all_iff dest: set_takeWhileD)
    ultimately show ?thesis using 1 [OF Cons] Cons
      by (simp add: split_runs_Cons)
  qed
qed

lemma split_runs_concat: "concat (split_runs P s) = filter (\<lambda>c. \<not> P c) s"
proof (induction P s rule: split_runs.induct)
  case (1 P s)
  have s: "s = takeWhile P s @ dropWhile P s" by simp
  have f0: "filter (\<lambda>c. \<not> P c) (takeWhile P s) = []"
    by (auto simp: filter_empty_conv dest: set_takeWhileD)
  have f: "filter (\<lambda>c. \<not> P c) s = filter (\<lambda>c. \<not> P c) (dropWhile P s)"
    by (subst s, subst filter_append) (simp add: f0)
  show ?case
  proof (cases "dropWhile P s")
    case Nil
    then show ?thesis using f by (simp add: split_runs_Nil)
  next
    case (Cons c cs)
    have c: "\<not> P c" using Cons hd_dropWhile [of P s] by auto
    have t: "filter (\<lambda>c. \<not> P c) (takeWhile (\<lambda>d. \<not> P d) cs) = takeWhile (\<lambda>d. \<not> P d) cs"
      by (auto simp: filter_id_conv dest: set_takeWhileD)
    have "filter (\<lambda>c. \<not> P c) cs =
          filter (\<lambda>c. \<not> P c) (takeWhile (\<lambda>d. \<not> P d) cs @ dropWhile (\<lambda>d. \<not> P d) cs)"
      by simp
    also have "\<dots> = takeWhile (\<lambda>d. \<not> P d) cs @ filter (\<lambda>c. \<not> P c) (dropWhile (\<lambda>d. \<not> P d) cs)"
      by (subst filter_append) (simp add: t)
    finally have cs: "filter (\<lambda>c. \<not> P c) cs =
        takeWhile (\<lambda>d. \<not> P d) cs @ concat (split_runs P (dropWhile (\<lambda>d. \<not> P d) cs))"
      using 1 [OF Cons] by simp
    show ?thesis using f Cons c cs by (simp add: split_runs_Cons)
  qed
qed

lemma uspace_not_alnum: "is_uspace c \<Longrightarrow> \<not> is_alnum c"
  by (auto simp: is_uspace_def is_space_def is_alnum_def is_upper_def is_lower_def is_digit_def
      upper_letters_def lower_letters_def digit_chars_def)

lemma whitespace_not_alnum: "whitespace_of s c \<Longrightarrow> \<not> is_alnum c"
  using uspace_not_alnum [of c] by (auto simp: whitespace_of_def is_uspace_def split: if_splits)

lemma map_err_alphanum_strs: "map_err alphanum_val (map VStr xs) = Inr (map alphanum xs)"
  by (induction xs) auto

lemma map_err_alphanum_chars:
  "map_err alphanum_val (map (\<lambda>c. VStr [c]) s) = Inr (map (\<lambda>c. alphanum [c]) s)"
  by (induction s) auto

lemma norm_tags_str:
  "norm_tags (VStr s) = Inr (filter (\<lambda>t. t \<noteq> []) (map alphanum (split_tags s)))"
proof (cases "split_tags s = []")
  case False
  then show ?thesis by (simp add: norm_tags_def map_err_alphanum_strs)
next
  case True
  then have "split_ws s = []"
    using split_on_nonempty [of "CHR '',''" s] by (auto simp: split_tags_def split: if_splits)
  then have "list_all (whitespace_of s) s" by (simp add: split_ws_def split_runs_empty_iff)
  then have "filter (\<lambda>t. t \<noteq> []) (map (\<lambda>c. alphanum [c]) s) = []"
    by (auto simp: filter_empty_conv list_all_iff alphanum_def whitespace_not_alnum)
  with True show ?thesis by (simp add: norm_tags_def map_err_alphanum_chars)
qed

text \<open>
  C10. \<open>norm_key\<close> is idempotent: its result has no upper-case letter, hyphen or
  space left, so lower-casing and the substitution leave it as it is.
\<close>

theorem norm_key_idempotent:
  "norm_key (norm_key s) = norm_key s
   \<and> list_all (\<lambda>c. \<not> is_upper c \<and> c \<noteq> CHR ''-'' \<and> c \<noteq> CHR '' '') (norm_key s)"
  using norm_key_idem [of s] norm_key_chars [of s]
  by (simp add: dash_or_space_def)

lemma norm_tags_run:
  "norm_tags (VStr ''a, b,, c'') = Inr [''a'', ''b'', ''c'']
   \<and> norm_tags (VStr ''b a, c ,b a'') = Inr [''ba'', ''c'', ''ba'']
   \<and> norm_tags (VStr ''a b  c'') = Inr [''a'', ''b'', ''c'']
   \<and> norm_tags (VStr (''x-1'' @ [CHR 0x09] @ ''y.2 '' @ [CHR 0x0A] @ ''x-1''))
       = Inr [''x1'', ''y2'', ''x1'']
   \<and> norm_tags (VStr (''a'' @ [CHR 0x1C] @ ''b'')) = Inr [''ab'']
   \<and> norm_tags (VStr (''a'' @ [CHR 0xA0] @ ''b'')) = Inr [''a'', ''b'']
   \<and> norm_tags (VStr (''a'' @ [CHR 0x1C] @ ''b'' @ [CHR 0xE9] @ '' c'')) = Inr [''a'', ''b'', ''c'']"
  by code_simp

text \<open>
  C8. \<open>norm_tags\<close> on the string \<open>a, b,, c\<close> gives the tuple \<open>(a, b, c)\<close>. On every
  string it splits at the commas when there is one and at whitespace otherwise, removes
  from each token every character outside \<open>[A-Za-z0-9]\<close>, drops the tokens left empty
  and keeps the others in order, repeats included. The runs: a comma list with an empty
  token and one with a repeat; blanks, a tab and a newline; a byte string with U+001C,
  which is no whitespace there; unicode strings, split at U+00A0 and at U+001C. The
  splits are genuine: joining the comma tokens with commas gives the string back and no
  token holds a comma; the whitespace tokens are non-empty, hold no whitespace, and
  together are the string without its whitespace.
\<close>

theorem norm_tags_string:
  "norm_tags (VStr ''a, b,, c'') = Inr [''a'', ''b'', ''c'']
   \<and> norm_tags (VStr ''b a, c ,b a'') = Inr [''ba'', ''c'', ''ba'']
   \<and> norm_tags (VStr ''a b  c'') = Inr [''a'', ''b'', ''c'']
   \<and> norm_tags (VStr (''x-1'' @ [CHR 0x09] @ ''y.2 '' @ [CHR 0x0A] @ ''x-1''))
       = Inr [''x1'', ''y2'', ''x1'']
   \<and> norm_tags (VStr (''a'' @ [CHR 0x1C] @ ''b'')) = Inr [''ab'']
   \<and> norm_tags (VStr (''a'' @ [CHR 0xA0] @ ''b'')) = Inr [''a'', ''b'']
   \<and> norm_tags (VStr (''a'' @ [CHR 0x1C] @ ''b'' @ [CHR 0xE9] @ '' c'')) = Inr [''a'', ''b'', ''c'']
   \<and> norm_tags (VStr s) =
       Inr (filter (\<lambda>t. t \<noteq> [])
         (map (filter is_alnum)
           (if CHR '','' \<in> set s then split_on (CHR '','') s else split_ws s)))
   \<and> join_str '','' (split_on (CHR '','') s) = s
   \<and> list_all (\<lambda>w. CHR '','' \<notin> set w) (split_on (CHR '','') s)
   \<and> list_all (\<lambda>w. w \<noteq> [] \<and> list_all (\<lambda>c. \<not> whitespace_of s c) w) (split_ws s)
   \<and> concat (split_ws s) = filter (\<lambda>c. \<not> whitespace_of s c) s"
proof -
  have g: "norm_tags (VStr s) =
      Inr (filter (\<lambda>t. t \<noteq> [])
        (map (filter is_alnum)
          (if CHR '','' \<in> set s then split_on (CHR '','') s else split_ws s)))"
    using norm_tags_str [of s] unfolding split_tags_def alphanum_def by simp
  have j: "join_str '','' (split_on (CHR '','') s) = s" by (rule split_on_join)
  have n: "list_all (\<lambda>w. CHR '','' \<notin> set w) (split_on (CHR '','') s)"
    by (rule split_on_no_sep)
  have t: "list_all (\<lambda>w. w \<noteq> [] \<and> list_all (\<lambda>c. \<not> whitespace_of s c) w) (split_ws s)"
    unfolding split_ws_def by (rule split_runs_tokens)
  have c: "concat (split_ws s) = filter (\<lambda>c. \<not> whitespace_of s c) s"
    unfolding split_ws_def by (rule split_runs_concat)
  from norm_tags_run g j n t c show ?thesis by (intro conjI) simp_all
qed

text \<open>
  C7 as stated fails: the joined parts get no leading slash.
\<close>

theorem join_url_no_leading_slash:
  "join_url True True [PStr ''blog'', PStr ''post''] \<noteq> ''/blog/post''"
  by (simp add: join_url_def)

text \<open>
  C7, amended. In clean-URL mode \<open>join_url("blog", "post", ext=True)\<close> is
  \<open>blog/post\<close>, otherwise \<open>blog/post.html\<close>; for any parts the two modes differ by
  the suffix \<open>.html\<close> alone, and with \<open>ext\<close> false there is no suffix in either mode.
\<close>

theorem join_url_clean_mode:
  "join_url True True [PStr ''blog'', PStr ''post''] = ''blog/post''
   \<and> join_url False True [PStr ''blog'', PStr ''post''] = ''blog/post.html''
   \<and> join_url False True parts = join_url True True parts @ ''.html''
   \<and> join_url c False parts = join_url True True parts"
  by (simp add: join_url_def)

section \<open>Properties of the content parser\<close>

lemma find_sub_None_iff: "find_sub pat s = None \<longleftrightarrow> (\<forall>a b. s \<noteq> a @ pat @ b)"
proof
  assume "find_sub pat s = None"
  then show "\<forall>a b. s \<noteq> a @ pat @ b"
  proof (induction s)
    case Nil
    then show ?case by (auto split: if_splits)
  next
    case (Cons c cs)
    then have n: "take (length pat) (c # cs) \<noteq> pat" and r: "find_sub pat cs = None"
      by (auto split: if_splits option.splits)
    show ?case
    proof (intro allI notI)
      fix a b assume e: "c # cs = a @ pat @ b"
      show False
      proof (cases a)
        case Nil
        with e have "take (length pat) (c # cs) = pat" by simp
        with n show False by simp
      next
        case (Cons x xs)
        with e have "cs = xs @ pat @ b" by simp
        with Cons.IH [OF r] show False by blast
      qed
    qed
  qed
next
  assume a: "\<forall>a b. s \<noteq> a @ pat @ b"
  show "find_sub pat s = None"
  proof (cases "find_sub pat s")
    case None then show ?thesis .
  next
    case (Some ba)
    then obtain b a' where "find_sub pat s = Some (b, a')" by (cases ba) auto
    from find_sub_eq [OF this] a show ?thesis by blast
  qed
qed

lemma split_front_no_blank:
  "\<forall>a b. s \<noteq> a @ blank_line @ b \<Longrightarrow> split_front s = (s, [])"
  using find_sub_None_iff [of blank_line s] by (simp add: split_front_def)

lemma sub_summary_Nil: "sub_summary [] = ([], None)"
  by (subst sub_summary.simps) simp

lemma strip_Nil: "strip [] = []"
  by (simp add: strip_def)

lemma body_update_content:
  "body_update env body p ''content'' = Some (VStr (markdown env (strip (fst (sub_summary body)))))"
  by (simp add: body_update_def split: prod.splits option.splits)

lemma body_update_other:
  "k \<noteq> ''content'' \<Longrightarrow> k \<noteq> ''summary'' \<Longrightarrow> body_update env body p k = p k"
  by (simp add: body_update_def split: prod.splits option.splits)

lemma ContentPage_InrD:
  assumes "ContentPage env fp = Inr p"
  obtains kvs p1 p2 where
    "yaml_load env (fst (split_front (fp_text fp))) = Inr (VMap kvs)"
    "head_items env kvs (Page_init (fst (splitext (basename (fp_name fp))))
        [(''modified'', VTime (fp_mtime fp))]) = Inr p1"
    "dated_update env (fst (splitext (basename (fp_name fp)))) p1 = Inr p2"
    "p = body_update env (snd (split_front (fp_text fp))) p2"
  using assms unfolding ContentPage_def Let_def
  by (auto split: prod.splits sum.splits val.splits)

lemma basename_no_slash: "CHR ''/'' \<notin> set (basename p)"
proof
  assume "CHR ''/'' \<in> set (basename p)"
  then have "CHR ''/'' \<in> set (takeWhile (\<lambda>c. c \<noteq> CHR ''/'') (rev p))"
    by (simp add: basename_def)
  then show False by (auto dest: set_takeWhileD)
qed

lemma splitext_fst_subset: "set (fst (splitext p)) \<subseteq> set p"
  by (auto simp: splitext_def Let_def dest: in_set_takeD)

lemma str_digits_digits: "list_all is_digit (str_digits n)"
proof (induction n rule: str_digits.induct)
  case (1 n)
  have d: "k < 10 \<Longrightarrow> is_digit (digit_chars ! nat k)" for k :: int
    unfolding is_digit_def by (rule nth_mem) (simp add: digit_chars_def)
  show ?case
  proof (cases "n < 10")
    case True
    then show ?thesis by (subst str_digits.simps) (simp add: d)
  next
    case False
    with 1 have "list_all is_digit (str_digits (n div 10))" by simp
    moreover have "is_digit (digit_chars ! nat (n mod 10))" by (rule d) simp
    ultimately show ?thesis using False by (subst str_digits.simps) simp
  qed
qed

lemma str_digits_nonempty: "str_digits n \<noteq> []"
  by (subst str_digits.simps) simp

lemma str_int_no_slash: "CHR ''/'' \<notin> set (str_int i)"
proof -
  have "\<not> is_digit (CHR ''/'')" by (simp add: is_digit_def digit_chars_def)
  then have "CHR ''/'' \<notin> set (str_digits n)" for n
    using str_digits_digits [of n] by (auto simp: list_all_iff)
  then show ?thesis by (simp add: str_int_def)
qed

lemma str_int_nonempty: "str_int i \<noteq> []"
  by (simp add: str_int_def str_digits_nonempty)

lemma collapse_no_slash: "CHR ''/'' \<notin> set s \<Longrightarrow> collapse_slashes s = s"
  by (induction s) auto

lemma collapse_append: "CHR ''/'' \<notin> set a \<Longrightarrow> collapse_slashes (a @ t) = a @ collapse_slashes t"
  by (induction a) auto

lemma dropWhile_none: "c \<notin> set b \<Longrightarrow> dropWhile (\<lambda>d. d = c) b = b"
  by (cases b) auto

lemma collapse_one_slash:
  assumes "CHR ''/'' \<notin> set a" "CHR ''/'' \<notin> set b"
  shows "collapse_slashes (a @ ''/'' @ b) = a @ ''/'' @ b"
  using assms by (simp add: collapse_append dropWhile_none collapse_no_slash)

lemma join_url_year_id:
  assumes "y \<noteq> 0" "i \<noteq> []" "CHR ''/'' \<notin> set i"
  shows "join_url c False [PInt y, PStr i] = str_int y @ ''/'' @ i"
  using assms collapse_one_slash [OF str_int_no_slash [of y] assms(3)]
  by (simp add: join_url_def)

lemma update_items_append: "update_items p (xs @ ys) = update_items (update_items p xs) ys"
  by (induction xs arbitrary: p) auto

lemma head_items_other:
  assumes "head_items env kvs p0 = Inr p1"
    and "key \<notin> {''date'', ''posted'', ''tags'', ''category'', ''summary''}"
  shows "p1 key = (case supplied key kvs of None \<Rightarrow> p0 key | Some v \<Rightarrow> Some v)"
  using assms
proof (induction kvs arbitrary: p0)
  case Nil
  then show ?case by simp
next
  case (Cons kv kvs)
  obtain k v where kv: "kv = (k, v)" by (cases kv)
  from Cons.prems(1) kv obtain ks w where k: "k = VStr ks"
    and w: "NORM env (norm_key ks) v = Inr w"
    and r: "head_items env kvs (p0(norm_key ks \<mapsto> w)) = Inr p1"
    by (auto split: val.splits sum.splits)
  have ih: "p1 key = (case supplied key kvs of None \<Rightarrow> (p0(norm_key ks \<mapsto> w)) key | Some v \<Rightarrow> Some v)"
    by (rule Cons.IH [OF r Cons.prems(2)])
  show ?case
  proof (cases "norm_key ks = key")
    case True
    with Cons.prems(2) w have "w = v" by (auto simp: NORM_def)
    with ih True kv k show ?thesis by (simp split: option.splits)
  next
    case False
    with ih kv k show ?thesis by (simp split: option.splits)
  qed
qed

lemma dated_update_VTime:
  assumes "dated_update env i p1 = Inr p2" and "p1 ''date'' = Some (VTime d)"
  shows "p2 ''id'' = Some (VStr (join_url (clean_urls env) False [PInt (dt_year d), PStr i]))"
    and "\<exists>tpl. p1 ''template'' = Some tpl \<and>
          p2 ''template'' = Some (if truthy tpl then tpl else VStr ''entry'')"
    and "1900 \<le> dt_year d"
    and "p2 ''prevpost'' = Some VNone" and "p2 ''nextpost'' = Some VNone"
  using assms
  by (auto simp: dated_update_def getattr_def split: option.splits if_splits)

lemma dated_update_date: "dated_update env i p1 = Inr p2 \<Longrightarrow> p2 ''date'' = p1 ''date''"
  by (auto simp: dated_update_def getattr_def split: option.splits if_splits val.splits)


lemma head_items_key:
  assumes "head_items env kvs p0 = Inr p1"
  shows "case supplied key kvs of
           None \<Rightarrow> p1 key = p0 key
         | Some v \<Rightarrow> (\<exists>w. NORM env key v = Inr w \<and> p1 key = Some w)"
  using assms
proof (induction kvs arbitrary: p0)
  case Nil
  then show ?case by simp
next
  case (Cons kv kvs)
  obtain k v where kv: "kv = (k, v)" by (cases kv)
  from Cons.prems kv obtain ks w where k: "k = VStr ks"
    and w: "NORM env (norm_key ks) v = Inr w"
    and r: "head_items env kvs (p0(norm_key ks \<mapsto> w)) = Inr p1"
    by (auto split: val.splits sum.splits)
  note ih = Cons.IH [OF r]
  show ?case
  proof (cases "supplied key kvs")
    case (Some v')
    with ih kv show ?thesis by simp
  next
    case None
    with ih have e: "p1 key = (p0(norm_key ks \<mapsto> w)) key" by simp
    show ?thesis
    proof (cases "norm_key ks = key")
      case True
      with e w None kv k show ?thesis by simp
    next
      case False
      with e None kv k show ?thesis by simp
    qed
  qed
qed

lemma dated_update_other:
  assumes "dated_update env i p1 = Inr p2"
    and "key \<notin> set [''id'', ''template'', ''month_name'', ''prevpost'', ''nextpost'']"
  shows "p2 key = p1 key"
  using assms
  by (auto simp: dated_update_def getattr_def split: option.splits if_splits val.splits)

lemma dated_update_undated:
  assumes "dated_update env i p1 = Inr p2" and "p1 ''date'' = Some VNone"
  shows "p2 = p1"
  using assms by (simp add: dated_update_def getattr_def)

lemma body_update_Nil: "body_update env [] p = p(''content'' \<mapsto> VStr (markdown env []))"
  by (simp add: body_update_def sub_summary_Nil strip_Nil)

text \<open>
  C1 as stated fails: a file with no blank line is handed to the loader whole, and the
  body is empty. The sample file holds the one line \<open>title: Hello\<close>; the page gets that
  title, and its content is the rendering of the empty text, not of the file's text.
\<close>

theorem no_blank_line_body_counterexample:
  "split_front (fp_text demo_undated) = (fp_text demo_undated, [])
   \<and> result_attr (ContentPage demo_env demo_undated) ''title'' = Some (VStr ''Hello'')
   \<and> result_attr (ContentPage demo_env demo_undated) ''content'' = Some (VStr [])
   \<and> result_attr (ContentPage demo_env demo_undated) ''content''
       \<noteq> Some (VStr (markdown demo_env (fp_text demo_undated)))"
  by code_simp

text \<open>
  C1, amended. For every content file whose text contains no blank-line boundary, the
  whole text is the front-matter block and the body is empty. When a page is produced,
  its \<open>content\<close> is the rendering of the empty text, and the loader was given the entire
  text and returned a mapping from which the attributes come: every attribute other than
  \<open>content\<close> is the normalized value of the last entry of that mapping whose key
  canonicalizes to the attribute's name, or the page's initial value when there is no
  such entry. (For a dated page this leaves out the five attributes the date rewrite
  sets: \<open>id\<close>, \<open>template\<close>, \<open>month_name\<close>, \<open>prevpost\<close>, \<open>nextpost\<close>.)
\<close>

theorem no_blank_line_is_front_matter:
  assumes "\<forall>a b. fp_text fp \<noteq> a @ blank_line @ b"
    and "ContentPage env fp = Inr p"
  shows "split_front (fp_text fp) = (fp_text fp, [])
    \<and> p ''content'' = Some (VStr (markdown env []))
    \<and> (\<exists>kvs. yaml_load env (fp_text fp) = Inr (VMap kvs)
          \<and> (\<forall>key. key \<noteq> ''content''
                \<and> (p ''date'' = Some VNone
                    \<or> key \<notin> set [''id'', ''template'', ''month_name'', ''prevpost'', ''nextpost''])
              \<longrightarrow> (case supplied key kvs of
                     None \<Rightarrow>
                       p key = Page_init (fst (splitext (basename (fp_name fp))))
                                 [(''modified'', VTime (fp_mtime fp))] key
                   | Some v \<Rightarrow> (\<exists>w. NORM env key v = Inr w \<and> p key = Some w))))"
proof -
  let ?p0 = "Page_init (fst (splitext (basename (fp_name fp)))) [(''modified'', VTime (fp_mtime fp))]"
  have s: "split_front (fp_text fp) = (fp_text fp, [])"
    by (rule split_front_no_blank [OF assms(1)])
  from assms(2) obtain kvs p1 p2 where
    y: "yaml_load env (fst (split_front (fp_text fp))) = Inr (VMap kvs)"
    and h: "head_items env kvs ?p0 = Inr p1"
    and u: "dated_update env (fst (splitext (basename (fp_name fp)))) p1 = Inr p2"
    and p: "p = body_update env (snd (split_front (fp_text fp))) p2"
    by (rule ContentPage_InrD)
  have pe: "p = p2(''content'' \<mapsto> VStr (markdown env []))"
    using p s by (simp add: body_update_Nil)
  then have c: "p ''content'' = Some (VStr (markdown env []))" by simp
  have k: "case supplied key kvs of
             None \<Rightarrow> p key = ?p0 key
           | Some v \<Rightarrow> (\<exists>w. NORM env key v = Inr w \<and> p key = Some w)"
    if n: "key \<noteq> ''content''"
      and d: "p ''date'' = Some VNone
              \<or> key \<notin> set [''id'', ''template'', ''month_name'', ''prevpost'', ''nextpost'']"
    for key
  proof -
    have "p2 key = p1 key"
    proof (cases "key \<notin> set [''id'', ''template'', ''month_name'', ''prevpost'', ''nextpost'']")
      case True
      then show ?thesis by (rule dated_update_other [OF u])
    next
      case False
      with d have "p ''date'' = Some VNone" by blast
      then have "p1 ''date'' = Some VNone"
        using pe dated_update_date [OF u] by simp
      with dated_update_undated [OF u] show ?thesis by simp
    qed
    then have "p key = p1 key" using pe n by simp
    with head_items_key [OF h, of key] show ?thesis
      by (cases "supplied key kvs") simp_all
  qed
  from s c y k show ?thesis by auto
qed

theorem no_blank_line_is_front_matter_witness:
  "split_front (fp_text demo_undated) = (fp_text demo_undated, [])
   \<and> yaml_load demo_env (fp_text demo_undated) = Inr (VMap [(VStr ''title'', VStr ''Hello'')])
   \<and> result_attr (ContentPage demo_env demo_undated) ''content''
       = Some (VStr (markdown demo_env []))
   \<and> result_attr (ContentPage demo_env demo_undated) ''title'' = Some (VStr ''Hello'')
   \<and> result_attr (ContentPage demo_env demo_undated) ''id'' = Some (VStr ''about'')"
proof -
  let ?kvs = "[(VStr ''title'', VStr ''Hello'')]"
  have "find_sub blank_line (fp_text demo_undated) = None" by code_simp
  then have h: "\<forall>a b. fp_text demo_undated \<noteq> a @ blank_line @ b"
    by (simp add: find_sub_None_iff)
  have "result_attr (ContentPage demo_env demo_undated) ''date'' = Some VNone" by code_simp
  then obtain p where p: "ContentPage demo_env demo_undated = Inr p"
    and d: "p ''date'' = Some VNone"
    by (cases "ContentPage demo_env demo_undated") (auto simp: result_attr_def)
  have y: "yaml_load demo_env (fp_text demo_undated) = Inr (VMap ?kvs)"
    by code_simp
  have st: "supplied ''title'' ?kvs = Some (VStr ''Hello'')"
    and si: "supplied ''id'' ?kvs = None"
    by code_simp+
  have nt: "NORM demo_env ''title'' (VStr ''Hello'') = Inr (VStr ''Hello'')"
    by (simp add: NORM_def)
  have pi: "Page_init (fst (splitext (basename (fp_name demo_undated))))
              [(''modified'', VTime (fp_mtime demo_undated))] ''id'' = Some (VStr ''about'')"
    by code_simp
  from no_blank_line_is_front_matter [OF h p] y
  have s: "split_front (fp_text demo_undated) = (fp_text demo_undated, [])"
    and c: "p ''content'' = Some (VStr (markdown demo_env []))"
    and k: "\<And>key. key \<noteq> ''content'' \<Longrightarrow>
              p ''date'' = Some VNone
              \<or> key \<notin> set [''id'', ''template'', ''month_name'', ''prevpost'', ''nextpost''] \<Longrightarrow>
              (case supplied key ?kvs of
                 None \<Rightarrow>
                   p key = Page_init (fst (splitext (basename (fp_name demo_undated))))
                             [(''modified'', VTime (fp_mtime demo_undated))] key
               | Some v \<Rightarrow> (\<exists>w. NORM demo_env key v = Inr w \<and> p key = Some w))"
    by auto
  have t: "p ''title'' = Some (VStr ''Hello'')"
    using k [of "''title''"] st nt by simp
  have i: "p ''id'' = Some (VStr ''about'')"
    using k [of "''id''"] d si pi by simp
  from s c t i y p show ?thesis by (simp add: result_attr_def)
qed

text \<open>
  C4. A content page made from front matter that sets a date has the id
  \<open>{year}/{basename}\<close>, the base name being the file name without directory and
  extension, and the template \<open>entry\<close> unless front matter supplied a (non-empty)
  template, which it then keeps.
\<close>

theorem dated_page_id_and_template:
  assumes "ContentPage env fp = Inr p"
    and "p ''date'' = Some (VTime d)"
    and "yaml_load env (fst (split_front (fp_text fp))) = Inr (VMap kvs)"
    and "fst (splitext (basename (fp_name fp))) = base"
    and "base \<noteq> []"
  shows "p ''id'' = Some (VStr (str_int (dt_year d) @ ''/'' @ base))
    \<and> p ''template'' =
        Some (case supplied ''template'' kvs of
                None \<Rightarrow> VStr ''entry''
              | Some v \<Rightarrow> if truthy v then v else VStr ''entry'')"
proof -
  from assms(1) obtain kvs' p1 p2 where
    y: "yaml_load env (fst (split_front (fp_text fp))) = Inr (VMap kvs')"
    and h: "head_items env kvs' (Page_init (fst (splitext (basename (fp_name fp))))
        [(''modified'', VTime (fp_mtime fp))]) = Inr p1"
    and u: "dated_update env (fst (splitext (basename (fp_name fp)))) p1 = Inr p2"
    and p: "p = body_update env (snd (split_front (fp_text fp))) p2"
    by (rule ContentPage_InrD)
  from y assms(3) have kvs: "kvs' = kvs" by simp
  have d1: "p1 ''date'' = Some (VTime d)"
    using assms(2) p dated_update_date [OF u] by (simp add: body_update_other)
  have slash: "CHR ''/'' \<notin> set base"
    using splitext_fst_subset [of "basename (fp_name fp)"] basename_no_slash [of "fp_name fp"]
      assms(4) by auto
  have year: "dt_year d \<noteq> 0"
    using dated_update_VTime(3) [OF u d1] by simp
  have "p2 ''id'' = Some (VStr (str_int (dt_year d) @ ''/'' @ base))"
    using dated_update_VTime(1) [OF u d1] assms(4)
      join_url_year_id [OF year assms(5) slash] by simp
  then have i: "p ''id'' = Some (VStr (str_int (dt_year d) @ ''/'' @ base))"
    using p by (simp add: body_update_other)
  have t1: "p1 ''template'' =
      (case supplied ''template'' kvs of None \<Rightarrow> Some (VStr []) | Some v \<Rightarrow> Some v)"
    using head_items_other [OF h, of "''template''"] kvs
    by (simp add: Page_init_def split: option.splits)
  from dated_update_VTime(2) [OF u d1] obtain tpl where
    tpl: "p1 ''template'' = Some tpl"
    and t2: "p2 ''template'' = Some (if truthy tpl then tpl else VStr ''entry'')"
    by blast
  have "p2 ''template'' =
      Some (case supplied ''template'' kvs of
              None \<Rightarrow> VStr ''entry''
            | Some v \<Rightarrow> if truthy v then v else VStr ''entry'')"
    using t1 tpl t2 by (auto split: option.splits)
  then have "p ''template'' =
      Some (case supplied ''template'' kvs of
              None \<Rightarrow> VStr ''entry''
            | Some v \<Rightarrow> if truthy v then v else VStr ''entry'')"
    using p by (simp add: body_update_other)
  with i show ?thesis by simp
qed

theorem dated_page_id_and_template_witness:
  "result_attr (ContentPage demo_env demo_dated) ''date'' = Some (VTime (DateTime 2020 6 1 0 0 0))
   \<and> result_attr (ContentPage demo_env demo_dated) ''id'' = Some (VStr ''2020/first-post'')
   \<and> result_attr (ContentPage demo_env demo_dated) ''template'' = Some (VStr ''entry'')"
proof -
  have "\<not> isl (ContentPage demo_env demo_dated)" by code_simp
  then obtain p where p: "ContentPage demo_env demo_dated = Inr p"
    by (cases "ContentPage demo_env demo_dated") auto
  have "result_attr (ContentPage demo_env demo_dated) ''date''
      = Some (VTime (DateTime 2020 6 1 0 0 0))"
    by code_simp
  with p have d: "p ''date'' = Some (VTime (DateTime 2020 6 1 0 0 0))"
    by (simp add: result_attr_def)
  have y: "yaml_load demo_env (fst (split_front (fp_text demo_dated)))
      = Inr (VMap [(VStr ''Title'', VStr ''First''), (VStr ''Date'', VStr ''2020-06-01'')])"
    by code_simp
  have b: "fst (splitext (basename (fp_name demo_dated))) = ''first-post''" by code_simp
  have s: "supplied ''template'' [(VStr ''Title'', VStr ''First''), (VStr ''Date'', VStr ''2020-06-01'')] = None"
    by code_simp
  have n: "str_int (dt_year (DateTime 2020 6 1 0 0 0)) @ ''/'' @ ''first-post'' = ''2020/first-post''"
    by code_simp
  have "''first-post'' \<noteq> []" by simp
  from dated_page_id_and_template [OF p d y b this]
  show ?thesis using p d s n by (simp add: result_attr_def)
qed

section \<open>Properties of the registry\<close>

lemma add_new:
  "page_id (heap st a) = Inr i \<Longrightarrow> i \<notin> set (map fst (pages st)) \<Longrightarrow>
   add a st = Inr (st\<lparr> pages := pages st @ [(i, a)] \<rparr>)"
  by (simp add: add_def)

lemma add_present:
  "page_id (heap st a) = Inr i \<Longrightarrow> i \<in> set (map fst (pages st)) \<Longrightarrow>
   add a st = Inl (SystemExit (''duplicate page id: '' @ i))"
  by (simp add: add_def die_def)

lemma map_of_append_new:
  "i \<notin> set (map fst xs) \<Longrightarrow> map_of (xs @ [(i, a)]) i = Some a"
  by (induction xs) auto

lemma filter_key_new:
  "i \<notin> set (map fst xs) \<Longrightarrow> filter (\<lambda>ka. fst ka = i) (xs @ [(i, a)]) = [(i, a)]"
  by (induction xs) auto

text \<open>
  C2 as stated fails for a registry that already holds the id: there the first add is the
  one that dies.
\<close>

theorem add_first_fails_counterexample:
  "page_id (heap demo_registry 1) = Inr ''about''
   \<and> page_id (heap demo_registry 2) = Inr ''about''
   \<and> add 1 demo_registry = Inl (SystemExit ''duplicate page id: about'')"
  by (simp add: demo_registry_def add_def die_def page_id_def Page_init_def)

text \<open>
  C2, amended. For every registry that does not yet hold the id and every two pages with
  that id, adding the first succeeds and adding the second then dies (a fatal build
  error, no overwrite); the registry then holds the first page under that id, once, and
  lookup returns it.
\<close>

theorem add_duplicate_id:
  assumes "page_id (heap st a1) = Inr i" and "page_id (heap st a2) = Inr i"
    and "i \<notin> set (map fst (pages st))"
  shows "add a1 st = Inr (st\<lparr> pages := pages st @ [(i, a1)] \<rparr>)
    \<and> is_fatal (add a2 (st\<lparr> pages := pages st @ [(i, a1)] \<rparr>))
    \<and> getitem (st\<lparr> pages := pages st @ [(i, a1)] \<rparr>) i = Inr a1
    \<and> filter (\<lambda>ka. fst ka = i) (pages (st\<lparr> pages := pages st @ [(i, a1)] \<rparr>)) = [(i, a1)]"
proof -
  let ?st1 = "st\<lparr> pages := pages st @ [(i, a1)] \<rparr>"
  have 1: "add a1 st = Inr ?st1" by (rule add_new [OF assms(1,3)])
  have "page_id (heap ?st1 a2) = Inr i" using assms(2) by simp
  moreover have "i \<in> set (map fst (pages ?st1))" by simp
  ultimately have "add a2 ?st1 = Inl (SystemExit (''duplicate page id: '' @ i))"
    by (rule add_present)
  then have 2: "is_fatal (add a2 ?st1)" by simp
  have "map_of (pages st @ [(i, a1)]) i = Some a1"
    by (rule map_of_append_new [OF assms(3)])
  then have 3: "getitem ?st1 i = Inr a1"
    by (simp add: getitem_def del: map_of_append)
  have "filter (\<lambda>ka. fst ka = i) (pages st @ [(i, a1)]) = [(i, a1)]"
    by (rule filter_key_new [OF assms(3)])
  then have 4: "filter (\<lambda>ka. fst ka = i) (pages ?st1) = [(i, a1)]"
    by (simp del: filter_append)
  from 1 2 3 4 show ?thesis by simp
qed

theorem add_duplicate_id_witness:
  "add 1 demo_unregistered = Inr (demo_unregistered\<lparr> pages := [(''about'', 1)] \<rparr>)
   \<and> is_fatal (add 2 (demo_unregistered\<lparr> pages := [(''about'', 1)] \<rparr>))
   \<and> getitem (demo_unregistered\<lparr> pages := [(''about'', 1)] \<rparr>) ''about'' = Inr 1"
proof -
  have 1: "page_id (heap demo_unregistered 1) = Inr ''about''"
    by (simp add: demo_unregistered_def demo_registry_def page_id_def Page_init_def)
  have 2: "page_id (heap demo_unregistered 2) = Inr ''about''"
    by (simp add: demo_unregistered_def demo_registry_def page_id_def Page_init_def)
  have 3: "''about'' \<notin> set (map fst (pages demo_unregistered))"
    by (simp add: demo_unregistered_def)
  have 4: "pages demo_unregistered = []" by (simp add: demo_unregistered_def)
  from add_duplicate_id [OF 1 2 3] show ?thesis by (simp add: 4)
qed






section \<open>Properties of the query\<close>

lemma insort_key_pairs:
  "insort_key fst (g x, x) (map (\<lambda>x. (g x, x)) ys) = map (\<lambda>x. (g x, x)) (insort_key g x ys)"
  by (induction ys) auto

lemma sort_key_pairs:
  "sort_key fst (map (\<lambda>x. (g x, x)) xs) = map (\<lambda>x. (g x, x)) (sort_key g xs)"
  by (induction xs) (simp_all add: insort_key_pairs)

lemma zip_map_self: "zip (map g xs) xs = map (\<lambda>x. (g x, x)) xs"
  by (induction xs) auto

lemma map_err_total: "\<forall>x\<in>set xs. f x = Inr (g x) \<Longrightarrow> map_err f xs = Inr (map g xs)"
  by (induction xs) auto

lemma sorted_by_total:
  assumes "\<forall>x\<in>set xs. f x = Inr (g x)"
  shows "sorted_by f xs = Inr (sort_key g xs)"
  using map_err_total [OF assms]
  by (simp add: sorted_by_def zip_map_self sort_key_pairs comp_def)


lemma sort_key_three:
  fixes g :: "'a \<Rightarrow> 'k::linorder"
  assumes "distinct L" and "set L = {a1, a2, a3}" and "g a1 < g a2" and "g a2 < g a3"
  shows "sort_key g L = [a1, a2, a3]"
proof -
  have inj: "inj_on g (set L)"
    using assms by (auto simp: inj_on_def)
  have "sorted (map g (sort_key g L))" by simp
  moreover have "distinct (map g (sort_key g L))"
    using inj assms(1) by (simp add: distinct_map)
  moreover have "g a1 < g a3" using assms(3,4) by (rule less_trans)
  then have "sorted (map g [a1, a2, a3])" using assms(3,4) by (simp add: less_imp_le)
  moreover have "distinct (map g [a1, a2, a3])"
    using assms(3,4) less_trans [OF assms(3,4)] by auto
  moreover have "set (map g (sort_key g L)) = set (map g [a1, a2, a3])"
    using assms(2) by simp
  ultimately have "map g (sort_key g L) = map g [a1, a2, a3]"
    by (rule sorted_distinct_set_unique)
  moreover have "inj_on g (set (sort_key g L) \<union> set [a1, a2, a3])"
    using inj assms(2) by simp
  ultimately show ?thesis using inj_on_map_eq_map by blast
qed










section \<open>Properties of archive derivation\<close>

lemma years_append_keys:
  "map fst (years_append y a ys) = (if y \<in> set (map fst ys) then map fst ys else map fst ys @ [y])"
  by (induction y a ys rule: years_append.induct) auto

lemma years_append_set:
  "e \<in> set (years_append y a ys) \<Longrightarrow>
     e \<in> set ys
     \<or> (\<exists>p. (y, p) \<in> set ys \<and> e = (y, p @ [a]))
     \<or> (y \<notin> set (map fst ys) \<and> e = (y, [a]))"
  by (induction y a ys rule: years_append.induct) (auto split: if_splits)

lemma years_ok_append:
  assumes ok: "years_ok st ys" and f: "fresh st' = Suc (fresh st)"
  shows "years_ok st' (years_append y (fresh st) ys)"
proof -
  let ?ys = "years_append y (fresh st) ys"
  from ok have d: "distinct (map fst ys)"
    and el: "\<And>e. e \<in> set ys \<Longrightarrow> distinct (snd e) \<and> (\<forall>a\<in>set (snd e). a < fresh st)"
    and dj: "\<And>e1 e2. e1 \<in> set ys \<Longrightarrow> e2 \<in> set ys \<Longrightarrow> e1 \<noteq> e2 \<Longrightarrow> set (snd e1) \<inter> set (snd e2) = {}"
    by (auto simp: years_ok_def)
  have inj: "e1 \<in> set ys \<Longrightarrow> e2 \<in> set ys \<Longrightarrow> fst e1 = fst e2 \<Longrightarrow> e1 = e2" for e1 e2
    using d by (meson distinct_map inj_onD)
  have 1: "distinct (map fst ?ys)" using d by (simp add: years_append_keys)
  have shape: "\<exists>e0. (e0 \<in> set ys \<or> e0 = (y, [])) \<and> fst e = fst e0
        \<and> (set (snd e) = set (snd e0) \<or> (fst e = y \<and> set (snd e) = insert (fresh st) (set (snd e0))))
        \<and> distinct (snd e)"
    if "e \<in> set ?ys" for e
  proof -
    from years_append_set [OF that] consider
      "e \<in> set ys"
      | p where "(y, p) \<in> set ys" "e = (y, p @ [fresh st])"
      | "y \<notin> set (map fst ys)" "e = (y, [fresh st])" by blast
    then show ?thesis
    proof cases
      case 1
      then show ?thesis using el [of e] by blast
    next
      case 2
      have "fresh st \<notin> set p" using el [OF 2(1)] by auto
      then show ?thesis using 2 el [OF 2(1)] by (intro exI [of _ "(y, p)"]) auto
    next
      case 3
      then show ?thesis by (intro exI [of _ "(y, [])"]) auto
    qed
  qed
  have 2: "distinct (snd e) \<and> (\<forall>a\<in>set (snd e). a < fresh st')" if "e \<in> set ?ys" for e
  proof -
    from shape [OF that] obtain e0 where e0: "e0 \<in> set ys \<or> e0 = (y, [])"
      and s: "set (snd e) = set (snd e0) \<or> set (snd e) = insert (fresh st) (set (snd e0))"
      and di: "distinct (snd e)" by blast
    have "\<forall>a\<in>set (snd e0). a < fresh st" using e0 el [of e0] by auto
    with s f di show ?thesis by (auto simp: less_Suc_eq)
  qed
  have 3: "set (snd e1) \<inter> set (snd e2) = {}"
    if "e1 \<in> set ?ys" "e2 \<in> set ?ys" "e1 \<noteq> e2" for e1 e2
  proof -
    have ne: "fst e1 \<noteq> fst e2"
      using that 1 by (meson distinct_map inj_onD)
    from shape [OF that(1)] obtain b1 where b1: "b1 \<in> set ys \<or> b1 = (y, [])" "fst e1 = fst b1"
      "set (snd e1) = set (snd b1) \<or> (fst e1 = y \<and> set (snd e1) = insert (fresh st) (set (snd b1)))"
      by blast
    from shape [OF that(2)] obtain b2 where b2: "b2 \<in> set ys \<or> b2 = (y, [])" "fst e2 = fst b2"
      "set (snd e2) = set (snd b2) \<or> (fst e2 = y \<and> set (snd e2) = insert (fresh st) (set (snd b2)))"
      by blast
    have nb: "b1 \<noteq> b2" using ne b1(2) b2(2) by auto
    have dis: "set (snd b1) \<inter> set (snd b2) = {}"
      using b1(1) b2(1) nb dj [of b1 b2] by auto
    have fr1: "fresh st \<notin> set (snd b1)" using b1(1) el [of b1] by auto
    have fr2: "fresh st \<notin> set (snd b2)" using b2(1) el [of b2] by auto
    from b1(3) b2(3) ne dis fr1 fr2 show ?thesis by auto
  qed
  from 1 2 3 show ?thesis unfolding years_ok_def by blast
qed

lemma years_ok_mono:
  "years_ok st ys \<Longrightarrow> fresh st \<le> fresh st' \<Longrightarrow> years_ok st' ys"
  unfolding years_ok_def by (meson less_le_trans)

lemma add_frame: "add a st = Inr st' \<Longrightarrow> heap st' = heap st \<and> fresh st' = fresh st"
  by (auto simp: add_def die_def split: sum.splits if_splits)

lemma load_pages_ok:
  "load_pages env fps (st, ys) = Inr (st', ys') \<Longrightarrow> years_ok st ys \<Longrightarrow> years_ok st' ys'"
proof (induction fps arbitrary: st ys)
  case Nil
  then show ?case by simp
next
  case (Cons fp fps)
  from Cons.prems(1) obtain p st2 d where
    a: "add (fresh st) (st\<lparr>heap := (heap st)(fresh st := p), fresh := Suc (fresh st)\<rparr>) = Inr st2"
    and r: "(if truthy d then
              (case d of VTime t \<Rightarrow> load_pages env fps (st2, years_append (dt_year t) (fresh st) ys)
               | _ \<Rightarrow> Inl AttributeError)
            else load_pages env fps (st2, ys)) = Inr (st', ys')"
    by (auto simp: new_object_def split: sum.splits)
  from add_frame [OF a] have f: "fresh st2 = Suc (fresh st)" by simp
  show ?case
  proof (cases "truthy d")
    case False
    with r have "load_pages env fps (st2, ys) = Inr (st', ys')" by simp
    moreover have "years_ok st2 ys" using Cons.prems(2) f by (auto intro: years_ok_mono)
    ultimately show ?thesis by (rule Cons.IH)
  next
    case True
    with r obtain t where "load_pages env fps (st2, years_append (dt_year t) (fresh st) ys) = Inr (st', ys')"
      by (auto split: val.splits)
    moreover have "years_ok st2 (years_append (dt_year t) (fresh st) ys)"
      by (rule years_ok_append [OF Cons.prems(2) f])
    ultimately show ?thesis by (rule Cons.IH)
  qed
qed

lemma load_content_ok:
  "load_content env exts fps = Inr (st, ys) \<Longrightarrow> years_ok st ys"
  unfolding load_content_def
  by (erule load_pages_ok) (simp add: years_ok_def empty_state_def)


lemma neighbours_posts: "map (\<lambda>t. fst (snd t)) (neighbours L) = L"
proof (cases L)
  case Nil
  then show ?thesis by (simp add: neighbours_def)
next
  case (Cons x xs)
  let ?b = "map Some (tl L) @ [None]"
  have l1: "length (None # map Some (butlast L)) = length L" unfolding Cons by simp
  have l2: "length L = length ?b" unfolding Cons by simp
  have s: "map snd (zip (None # map Some (butlast L)) (zip L ?b)) = zip L ?b"
  proof (rule map_snd_zip)
    have "length (zip L ?b) = length L" using l2 by simp
    with l1 show "length (None # map Some (butlast L)) = length (zip L ?b)" by (simp only:)
  qed
  have f: "map fst (zip L ?b) = L" by (rule map_fst_zip [OF l2])
  have "map (\<lambda>t. fst (snd t)) (neighbours L)
      = map fst (map snd (zip (None # map Some (butlast L)) (zip L ?b)))"
    unfolding neighbours_def by simp
  also have "\<dots> = L" by (simp only: s f)
  finally show ?thesis .
qed

lemma set_links_frame:
  "a \<notin> set (map (\<lambda>t. fst (snd t)) ns) \<Longrightarrow> foldl set_links h ns a = h a"
  by (induction ns arbitrary: h) auto

lemma set_links_keys:
  "k \<noteq> ''prevpost'' \<Longrightarrow> k \<noteq> ''nextpost'' \<Longrightarrow> foldl set_links h ns a k = h a k"
  by (induction ns arbitrary: h) auto

lemma sortkey_origin_cong:
  assumes "p ''date'' = q ''date''" and "p ''id'' = q ''id''"
  shows "sortkey_origin mk p = sortkey_origin mk q"
proof -
  have "page_id p = page_id q" using assms(2) by (simp add: page_id_def)
  then show ?thesis using assms(1)
    by (simp add: sortkey_origin_def getattr_def split: sum.splits option.splits)
qed

lemma sorted_by_set: "sorted_by f xs = Inr ys \<Longrightarrow> set ys = set xs"
proof -
  assume a: "sorted_by f xs = Inr ys"
  then obtain ks where ks: "map_err f xs = Inr ks" and ys: "ys = map snd (sort_key fst (zip ks xs))"
    by (auto simp: sorted_by_def split: sum.splits)
  have "length ks = length xs" using ks
    by (induction xs arbitrary: ks) (auto split: sum.splits)
  then have "map snd (zip ks xs) = xs" by (simp add: map_snd_zip)
  then have "snd ` set (zip ks xs) = set xs" by (metis set_map)
  with ys show ?thesis by simp
qed

lemma derive_year_InrD:
  assumes "derive_year mk clean st yp = Inr st'"
  obtains posts ap where
    "sorted_by (\<lambda>a. sortkey_origin mk (heap st a)) (snd yp) = Inr posts"
    "fresh st' = Suc (fresh st)"
    "heap st' = foldl set_links ((heap st)(fresh st := ap)) (neighbours posts)"
proof -
  from assms obtain posts ap st2 where
    s: "sorted_by (\<lambda>a. sortkey_origin mk (heap st a)) (snd yp) = Inr posts"
    and a: "add (fresh st) (st\<lparr>heap := (heap st)(fresh st := ap), fresh := Suc (fresh st)\<rparr>) = Inr st2"
    and r: "st' = st2\<lparr>heap := foldl set_links (heap st2) (neighbours posts)\<rparr>"
    by (auto simp: derive_year_def new_object_def split: sum.splits)
  from add_frame [OF a] r have "fresh st' = Suc (fresh st)"
    "heap st' = foldl set_links ((heap st)(fresh st := ap)) (neighbours posts)" by simp_all
  with s that show ?thesis by blast
qed

lemma derive_year_frame:
  assumes "derive_year mk clean st yp = Inr st'" and "a < fresh st"
  shows "a \<notin> set (snd yp) \<Longrightarrow> heap st' a = heap st a"
    and "k \<noteq> ''prevpost'' \<Longrightarrow> k \<noteq> ''nextpost'' \<Longrightarrow> heap st' a k = heap st a k"
    and "fresh st' = Suc (fresh st)"
proof -
  from assms(1) obtain posts ap where
    s: "sorted_by (\<lambda>a. sortkey_origin mk (heap st a)) (snd yp) = Inr posts"
    and f: "fresh st' = Suc (fresh st)"
    and h: "heap st' = foldl set_links ((heap st)(fresh st := ap)) (neighbours posts)"
    by (rule derive_year_InrD)
  have ne: "a \<noteq> fresh st" using assms(2) by simp
  show "heap st' a = heap st a" if "a \<notin> set (snd yp)"
    using that sorted_by_set [OF s] ne by (simp add: h set_links_frame neighbours_posts)
  show "heap st' a k = heap st a k" if "k \<noteq> ''prevpost''" "k \<noteq> ''nextpost''"
    using that ne by (simp add: h set_links_keys)
  show "fresh st' = Suc (fresh st)" by (rule f)
qed

lemma derive_years_frame:
  assumes "derive_years mk clean st L = Inr st'" and "a < fresh st"
  shows "(\<forall>e\<in>set L. a \<notin> set (snd e)) \<longrightarrow> heap st' a = heap st a"
    and "k \<noteq> ''prevpost'' \<longrightarrow> k \<noteq> ''nextpost'' \<longrightarrow> heap st' a k = heap st a k"
    and "fresh st \<le> fresh st'"
  using assms
proof (induction L arbitrary: st)
  case Nil
  { case 1 then show ?case by simp }
  { case 2 then show ?case by simp }
  { case 3 then show ?case by simp }
next
  case (Cons e L)
  { case 1
    then obtain st1 where y: "derive_year mk clean st e = Inr st1"
      and r: "derive_years mk clean st1 L = Inr st'"
      by (auto split: sum.splits)
    have lt: "a < fresh st1" using derive_year_frame(3) [OF y 1(2)] 1(2) by simp
    show ?case using Cons.IH(1) [OF r lt] derive_year_frame(1) [OF y 1(2)] by simp }
  { case 2
    then obtain st1 where y: "derive_year mk clean st e = Inr st1"
      and r: "derive_years mk clean st1 L = Inr st'"
      by (auto split: sum.splits)
    have lt: "a < fresh st1" using derive_year_frame(3) [OF y 2(2)] 2(2) by simp
    show ?case using Cons.IH(2) [OF r lt] derive_year_frame(2) [OF y 2(2)] by simp }
  { case 3
    then obtain st1 where y: "derive_year mk clean st e = Inr st1"
      and r: "derive_years mk clean st1 L = Inr st'"
      by (auto split: sum.splits)
    have lt: "a < fresh st1" using derive_year_frame(3) [OF y 3(2)] 3(2) by simp
    show ?case using Cons.IH(3) [OF r lt] derive_year_frame(3) [OF y 3(2)] by simp }
qed

lemma derive_years_append:
  "derive_years mk clean st (xs @ ys) =
     (case derive_years mk clean st xs of Inl e \<Rightarrow> Inl e | Inr s \<Rightarrow> derive_years mk clean s ys)"
  by (induction xs arbitrary: st) (auto split: sum.splits)

lemma derive_year_links:
  assumes y: "derive_year mk clean st (yr, posts) = Inr st'"
    and d: "distinct posts" and s: "set posts = {a1, a2, a3}"
    and k: "sortkey_origin mk (heap st a1) = Inr k1" "sortkey_origin mk (heap st a2) = Inr k2"
           "sortkey_origin mk (heap st a3) = Inr k3"
    and lt: "k1 < k2" "k2 < k3"
    and fr: "a1 < fresh st" "a2 < fresh st" "a3 < fresh st"
  shows "heap st' a1 ''prevpost'' = Some VNone \<and> heap st' a1 ''nextpost'' = Some (VRef a2)
       \<and> heap st' a2 ''prevpost'' = Some (VRef a1) \<and> heap st' a2 ''nextpost'' = Some (VRef a3)
       \<and> heap st' a3 ''prevpost'' = Some (VRef a2) \<and> heap st' a3 ''nextpost'' = Some VNone"
proof -
  let ?g = "\<lambda>a. projr (sortkey_origin mk (heap st a))"
  from y obtain sposts ap where
    sb: "sorted_by (\<lambda>a. sortkey_origin mk (heap st a)) posts = Inr sposts"
    and h: "heap st' = foldl set_links ((heap st)(fresh st := ap)) (neighbours sposts)"
    by (rule derive_year_InrD) simp
  have "\<forall>a\<in>set posts. sortkey_origin mk (heap st a) = Inr (?g a)"
    using s k by auto
  from sorted_by_total [OF this] sb have "sposts = sort_key ?g posts" by simp
  moreover have "sort_key ?g posts = [a1, a2, a3]"
    by (rule sort_key_three [OF d s]) (use k lt in simp_all)
  ultimately have sp: "sposts = [a1, a2, a3]" by simp
  have ne: "a1 \<noteq> a2" "a2 \<noteq> a3" "a1 \<noteq> a3"
    using k lt by auto
  have nf: "a1 \<noteq> fresh st" "a2 \<noteq> fresh st" "a3 \<noteq> fresh st" using fr by simp_all
  show ?thesis
    using ne nf by (simp add: h sp neighbours_def)
qed

text \<open>
  C3. Of the pages the build loads, let a calendar year list exactly the three posts
  \<open>a1\<close>, \<open>a2\<close>, \<open>a3\<close>, with origin sort keys \<open>k1 < k2 < k3\<close>. After archive
  derivation the first has no previous post and the second as next, the second has the
  first and the third, and the third has the second as previous and no next post: the
  chain stays within the year.
\<close>

theorem year_chain:
  assumes load: "load_content env exts fps = Inr (st, years)"
    and build: "build_pages env exts fps = Inr st'"
    and yr: "(y, posts) \<in> set years"
    and three: "set posts = {a1, a2, a3}"
    and k: "sortkey_origin (mktime env) (heap st a1) = Inr k1"
           "sortkey_origin (mktime env) (heap st a2) = Inr k2"
           "sortkey_origin (mktime env) (heap st a3) = Inr k3"
    and lt: "k1 < k2" "k2 < k3"
  shows "attr st' a1 ''prevpost'' = Some VNone \<and> attr st' a1 ''nextpost'' = Some (VRef a2)
       \<and> attr st' a2 ''prevpost'' = Some (VRef a1) \<and> attr st' a2 ''nextpost'' = Some (VRef a3)
       \<and> attr st' a3 ''prevpost'' = Some (VRef a2) \<and> attr st' a3 ''nextpost'' = Some VNone"
proof -
  let ?mk = "mktime env" and ?c = "clean_urls env"
  let ?L = "sort_key fst years"
  from load build have der: "derive_years ?mk ?c st ?L = Inr st'"
    by (simp add: build_pages_def derive_def)
  have ok: "years_ok st years" by (rule load_content_ok [OF load])
  then have dposts: "distinct posts" and fr: "\<forall>a\<in>set posts. a < fresh st"
    using yr by (auto simp: years_ok_def)
  from ok have "distinct (map fst years)" by (simp add: years_ok_def)
  then have "distinct years" by (simp add: distinct_map)
  then have dL: "distinct ?L" by simp
  have "(y, posts) \<in> set ?L" using yr by simp
  from split_list [OF this] obtain pre post where L: "?L = pre @ (y, posts) # post" by blast
  have npost: "(y, posts) \<notin> set post" using dL unfolding L by simp
  have inY: "set post \<subseteq> set years"
  proof -
    have "set post \<subseteq> set ?L" unfolding L by auto
    then show ?thesis by simp
  qed
  from der obtain sa sb where
    1: "derive_years ?mk ?c st pre = Inr sa"
    and 2: "derive_year ?mk ?c sa (y, posts) = Inr sb"
    and 3: "derive_years ?mk ?c sb post = Inr st'"
    unfolding L by (auto simp: derive_years_append split: sum.splits)
  have a: "a1 \<in> set posts" "a2 \<in> set posts" "a3 \<in> set posts" using three by simp_all
  have lt0: "a < fresh st" if "a \<in> set posts" for a using fr that by simp
  have lta: "a < fresh sa" if "a \<in> set posts" for a
    using derive_years_frame(3) [OF 1 lt0 [OF that]] lt0 [OF that] by simp
  have ltb: "a < fresh sb" if "a \<in> set posts" for a
    using derive_year_frame(3) [OF 2 lta [OF that]] lta [OF that] by simp
  have key: "sortkey_origin ?mk (heap sa a) = sortkey_origin ?mk (heap st a)"
    if "a \<in> set posts" for a
    by (rule sortkey_origin_cong)
       (use derive_years_frame(2) [OF 1 lt0 [OF that]] in simp_all)
  have links: "heap sb a1 ''prevpost'' = Some VNone \<and> heap sb a1 ''nextpost'' = Some (VRef a2)
       \<and> heap sb a2 ''prevpost'' = Some (VRef a1) \<and> heap sb a2 ''nextpost'' = Some (VRef a3)
       \<and> heap sb a3 ''prevpost'' = Some (VRef a2) \<and> heap sb a3 ''nextpost'' = Some VNone"
    by (rule derive_year_links [OF 2 dposts three _ _ _ lt])
       (simp_all add: key a k lta)
  have keep: "heap st' a = heap sb a" if "a \<in> set posts" for a
  proof -
    have "a \<notin> set (snd e)" if e: "e \<in> set post" for e
    proof -
      from e npost have "e \<noteq> (y, posts)" by auto
      moreover from e inY have "e \<in> set years" by auto
      ultimately have "set (snd e) \<inter> set (snd (y, posts)) = {}"
        using ok yr unfolding years_ok_def by blast
      with \<open>a \<in> set posts\<close> show ?thesis by auto
    qed
    with derive_years_frame(1) [OF 3 ltb [OF that]] show ?thesis by blast
  qed
  show ?thesis using links by (simp add: attr_def keep a)
qed

theorem year_chain_witness:
  "attr_in (build_pages demo_env [''md''] demo_site) 2 ''prevpost'' = Some VNone
   \<and> attr_in (build_pages demo_env [''md''] demo_site) 2 ''nextpost'' = Some (VRef 0)
   \<and> attr_in (build_pages demo_env [''md''] demo_site) 0 ''prevpost'' = Some (VRef 2)
   \<and> attr_in (build_pages demo_env [''md''] demo_site) 0 ''nextpost'' = Some (VRef 3)
   \<and> attr_in (build_pages demo_env [''md''] demo_site) 3 ''prevpost'' = Some (VRef 0)
   \<and> attr_in (build_pages demo_env [''md''] demo_site) 3 ''nextpost'' = Some VNone"
proof -
  have "case load_content demo_env [''md''] demo_site of Inl e \<Rightarrow> False
        | Inr sy \<Rightarrow> snd sy = [(2020, [0, 2, 3]), (2021, [1])]
            \<and> map (\<lambda>a. sortkey_origin (mktime demo_env) (heap (fst sy) a)) [2, 0, 3]
                = [Inr (1577836800, ''2020/jan''), Inr (1590969600, ''2020/jun''),
                   Inr (1609372800, ''2020/dec'')]"
    by code_simp
  then obtain st years where l: "load_content demo_env [''md''] demo_site = Inr (st, years)"
    and y: "years = [(2020, [0, 2, 3]), (2021, [1])]"
    and k: "sortkey_origin (mktime demo_env) (heap st 2) = Inr (1577836800, ''2020/jan'')"
           "sortkey_origin (mktime demo_env) (heap st 0) = Inr (1590969600, ''2020/jun'')"
           "sortkey_origin (mktime demo_env) (heap st 3) = Inr (1609372800, ''2020/dec'')"
    by (cases "load_content demo_env [''md''] demo_site") auto
  have "\<not> isl (build_pages demo_env [''md''] demo_site)" by code_simp
  then obtain st' where b: "build_pages demo_env [''md''] demo_site = Inr st'"
    by (cases "build_pages demo_env [''md''] demo_site") auto
  have yr: "(2020, [0, 2, 3]) \<in> set years" by (simp add: y)
  have s: "set [0, 2, 3] = {2, 0, 3::nat}" by auto
  have lt: "(1577836800::int, ''2020/jan'') < (1590969600, ''2020/jun'')"
           "(1590969600::int, ''2020/jun'') < (1609372800, ''2020/dec'')"
    by (simp_all add: less_prod_def)
  from year_chain [OF l b yr s k lt]
  show ?thesis by (simp add: attr_in_def b)
qed

section \<open>The second run of the asset synchronization\<close>
















end
